theory Spec2Isabelle
  imports Complex_Main "HOL-Library.FSet" "HOL-Library.Log_Nat"
begin

section \<open>Putaway bin transfer: the data model\<close>

text \<open>
  The TypeScript sources compute with JavaScript numbers, which are IEEE 754 binary64
  values. A finite number is held here by its exact value, a rational (\<^typ>\<open>rat\<close>):
  the quantities of a lot, of a pending row and of the form are finite. What the code
  computes from them with \<open>+\<close> and \<open>-\<close> is rounded to binary64, as the next section
  defines; comparisons are exact. A form field of \<open>type="number"\<close> holds a number or
  nothing (\<open>null\<close>, the empty string), which is \<^typ>\<open>rat option\<close>;
  \<open>parseFloat(v) || 0\<close> maps nothing (and \<open>NaN\<close>, and \<open>0\<close>) to \<open>0\<close>. The database and
  the transfer engine of the later sections hold decimals, which are rationals as well.
\<close>

type_synonym number = rat

text \<open>\<open>interface LotDetails\<close> of the putaway component.\<close>

record LotDetails =
  lotNumber :: string
  binNumber :: string
  itemKey :: string
  location :: string
  uom :: string
  qtyCommitSales :: number
  qtyOnHand :: number
  qtyAvail :: number
  expDate :: string
  lotStatus :: string

text \<open>\<open>LotTransactionItem\<close>: one pending transaction row listed by the selection modal.\<close>

record LotTransactionItem =
  lot_tran_no :: nat
  lot_no :: string
  bin_no :: string
  doc_no :: string
  qty :: number
  tran_typ :: string

section \<open>JavaScript numbers\<close>

text \<open>
  The binary exponent of a positive rational: \<open>ilog2 x = e\<close> where
  \<open>2\<^sup>e \<le> x < 2\<^sup>e\<^sup>+\<^sup>1\<close>, from the bit lengths of numerator and denominator.
\<close>

definition ilog2 :: "rat \<Rightarrow> int" where
  "ilog2 x = (let (a, b) = quotient_of x; d = bitlen a - bitlen b
              in if 2 powi d \<le> x then d else d - 1)"

text \<open>Rounding to the nearest integer, a tie going to the even one.\<close>

definition round_half_even :: "rat \<Rightarrow> int" where
  "round_half_even y =
     (let f = \<lfloor>y\<rfloor>; r = y - of_int f
      in if r < 1 / 2 then f else if 1 / 2 < r then f + 1 else if even f then f else f + 1)"

text \<open>
  The spacing of the binary64 values around \<open>x\<close>: 53 significant bits, that is
  \<open>2\<^sup>e\<^sup>-\<^sup>5\<^sup>2\<close> for \<open>2\<^sup>e \<le> |x| < 2\<^sup>e\<^sup>+\<^sup>1\<close>, and \<open>2\<^sup>-\<^sup>1\<^sup>0\<^sup>7\<^sup>4\<close> below \<open>2\<^sup>-\<^sup>1\<^sup>0\<^sup>2\<^sup>2\<close>
  (the subnormal numbers). \<open>round_fin\<close> is the rounding of IEEE 754
  (\<open>roundTiesToEven\<close>) with the exponent unbounded above.
\<close>

definition quantum :: "rat \<Rightarrow> rat" where
  "quantum x = 2 powi (max (ilog2 \<bar>x\<bar>) (- 1022) - 52)"

definition round_fin :: "rat \<Rightarrow> rat" where
  "round_fin x = (if x = 0 then 0 else of_int (round_half_even (x / quantum x)) * quantum x)"

text \<open>
  A JavaScript number: a finite value, an infinity or \<open>NaN\<close>. The sign of zero is not
  kept; the code modelled here does not divide and does not tell \<open>-0\<close> from \<open>0\<close>.
\<close>

datatype Number = Num rat | Infinity | MinusInfinity | NaN

text \<open>
  The binary64 result of an exact value: rounded, and an infinity when the rounded
  value leaves the range, whose bound is \<open>2\<^sup>1\<^sup>0\<^sup>2\<^sup>4\<close>. A rational is (the value of) a
  double when rounding leaves it as it is. A decimal literal of the code and a number
  read from JSON or from a form denote the double nearest to them.
\<close>

definition binary64 :: "rat \<Rightarrow> Number" where
  "binary64 x =
     (let r = round_fin x
      in if 2 ^ 1024 \<le> r then Infinity else if r \<le> - (2 ^ 1024) then MinusInfinity else Num r)"

definition is_double :: "rat \<Rightarrow> bool" where
  "is_double x \<longleftrightarrow> binary64 x = Num x"

definition lit :: "rat \<Rightarrow> Number" where
  "lit x = binary64 x"

text \<open>
  The same set of values described by significand and exponent: \<open>m \<times> 2\<^sup>e\<close> with
  \<open>|m| < 2\<^sup>5\<^sup>3\<close> and \<open>e \<ge> -1074\<close>.
\<close>

definition representable :: "rat \<Rightarrow> bool" where
  "representable x \<longleftrightarrow> (\<exists>m e. x = of_int m * 2 powi e \<and> \<bar>m\<bar> < 2 ^ 53 \<and> - 1074 \<le> e)"

text \<open>The operators \<open>+\<close>, unary and binary \<open>-\<close>, \<open>Math.abs\<close>, \<open><\<close> and \<open>>\<close> on numbers.\<close>

fun js_plus :: "Number \<Rightarrow> Number \<Rightarrow> Number" where
  "js_plus (Num a) (Num b) = binary64 (a + b)"
| "js_plus NaN y = NaN"
| "js_plus x NaN = NaN"
| "js_plus Infinity MinusInfinity = NaN"
| "js_plus MinusInfinity Infinity = NaN"
| "js_plus Infinity y = Infinity"
| "js_plus x Infinity = Infinity"
| "js_plus MinusInfinity y = MinusInfinity"
| "js_plus x MinusInfinity = MinusInfinity"

fun js_negate :: "Number \<Rightarrow> Number" where
  "js_negate (Num a) = Num (- a)"
| "js_negate Infinity = MinusInfinity"
| "js_negate MinusInfinity = Infinity"
| "js_negate NaN = NaN"

definition js_minus :: "Number \<Rightarrow> Number \<Rightarrow> Number" where
  "js_minus x y = js_plus x (js_negate y)"

fun Math_abs :: "Number \<Rightarrow> Number" where
  "Math_abs (Num a) = Num \<bar>a\<bar>"
| "Math_abs Infinity = Infinity"
| "Math_abs MinusInfinity = Infinity"
| "Math_abs NaN = NaN"

fun js_less :: "Number \<Rightarrow> Number \<Rightarrow> bool" where
  "js_less (Num a) (Num b) \<longleftrightarrow> a < b"
| "js_less NaN y \<longleftrightarrow> False"
| "js_less x NaN \<longleftrightarrow> False"
| "js_less x MinusInfinity \<longleftrightarrow> False"
| "js_less Infinity y \<longleftrightarrow> False"
| "js_less MinusInfinity y \<longleftrightarrow> True"
| "js_less x Infinity \<longleftrightarrow> True"

definition js_greater :: "Number \<Rightarrow> Number \<Rightarrow> bool" where
  "js_greater x y = js_less y x"

section \<open>The transaction-selection modal\<close>

text \<open>
  The signals of \<open>TransactionSelectionModalComponent\<close> that its computed values read:
  the rows, the \<open>Set<number>\<close> of selected row ids and the input \<open>targetQty\<close>.
\<close>

record modal =
  transactions :: "LotTransactionItem list"
  selectedIds :: "nat fset"
  targetQty :: number

definition selectedCount :: "modal \<Rightarrow> nat" where
  "selectedCount m = fcard (selectedIds m)"

text \<open>\<open>txs.filter(t => selected.has(t.lot_tran_no))\<close>: the selected rows, in the order of the table.\<close>

definition selectedRows :: "modal \<Rightarrow> LotTransactionItem list" where
  "selectedRows m = filter (\<lambda>t. lot_tran_no t |\<in>| selectedIds m) (transactions m)"

text \<open>
  \<open>.reduce((sum, t) => sum + t.qty, 0)\<close> over them: the running sum from the left, each
  addition rounded.
\<close>

definition selectedTotalQty :: "modal \<Rightarrow> Number" where
  "selectedTotalQty m = foldl (\<lambda>sum t. js_plus sum (Num (qty t))) (Num 0) (selectedRows m)"

text \<open>
  \<open>if (target <= 0) return this.selectedCount() > 0;
    return Math.abs(this.selectedTotalQty() - target) < 0.001;\<close>
\<close>

definition isQtyMatched :: "modal \<Rightarrow> bool" where
  "isQtyMatched m =
     (let target = targetQty m in
      if target \<le> 0 then selectedCount m > 0
      else js_less (Math_abs (js_minus (selectedTotalQty m) (Num target))) (lit (1 / 1000)))"

definition showQtyMismatchWarning :: "modal \<Rightarrow> bool" where
  "showQtyMismatchWarning m = (selectedCount m > 0 \<and> \<not> isQtyMatched m \<and> targetQty m > 0)"

definition canConfirm :: "modal \<Rightarrow> bool" where
  "canConfirm m = (selectedCount m > 0 \<and> isQtyMatched m)"

text \<open>
  \<open>onConfirm\<close> emits \<open>selectedTotalQty()\<close> to the parent. The Confirm button carries
  \<open>[disabled]="!canConfirm()"\<close>, so a click reaches \<open>onConfirm\<close> only when
  \<open>canConfirm\<close> holds; \<open>clickConfirm\<close> is the button together with its handler.
\<close>

definition onConfirm :: "modal \<Rightarrow> Number" where
  "onConfirm m = selectedTotalQty m"

definition clickConfirm :: "modal \<Rightarrow> Number option" where
  "clickConfirm m = (if canConfirm m then Some (onConfirm m) else None)"

text \<open>
  Scenario S5 of the specification: three pending rows of 30, 30 and 20 on the source
  bin; the first two are ticked.
\<close>

definition S5_rows :: "LotTransactionItem list" where
  "S5_rows =
     [\<lparr>lot_tran_no = 1, lot_no = ''2600107-1'', bin_no = ''K0802-4B'', doc_no = ''SO-1'',
        qty = 30, tran_typ = ''Sales Issue''\<rparr>,
      \<lparr>lot_tran_no = 2, lot_no = ''2600107-1'', bin_no = ''K0802-4B'', doc_no = ''SO-2'',
        qty = 30, tran_typ = ''Sales Issue''\<rparr>,
      \<lparr>lot_tran_no = 3, lot_no = ''2600107-1'', bin_no = ''K0802-4B'', doc_no = ''SO-3'',
        qty = 20, tran_typ = ''Sales Issue''\<rparr>]"

definition S5_modal :: "number \<Rightarrow> modal" where
  "S5_modal target = \<lparr>transactions = S5_rows, selectedIds = {|1, 2|}, targetQty = target\<rparr>"

text \<open>
  A pending row whose quantity comes from JSON as the decimal \<open>q\<close>, read as the nearest
  double, and the modal that lists this one row, ticked, for a target \<open>t\<close>.
\<close>

definition pending_row :: "nat \<Rightarrow> rat \<Rightarrow> LotTransactionItem" where
  "pending_row i q =
     \<lparr>lot_tran_no = i, lot_no = ''2600107-1'', bin_no = ''K0802-4B'', doc_no = ''SO-1'',
      qty = round_fin q, tran_typ = ''Sales Issue''\<rparr>"

definition one_row_modal :: "rat \<Rightarrow> number \<Rightarrow> modal" where
  "one_row_modal q t = \<lparr>transactions = [pending_row 1 q], selectedIds = {|1|}, targetQty = t\<rparr>"

section \<open>The putaway component: transfer against committed quantity\<close>

text \<open>
  Strings are the UTF-8 bytes of the text. \<open>String.prototype.trim\<close> removes from both
  ends the code points of \<open>WhiteSpace\<close> and \<open>LineTerminator\<close> of ECMAScript: U+0009 to
  U+000D, U+0020, U+00A0, U+1680, U+2000 to U+200A, U+2028, U+2029, U+202F, U+205F,
  U+3000 and U+FEFF, listed here by their encodings.
\<close>

definition WhiteSpace :: "string list" where
  "WhiteSpace =
     [[CHR 0x09], [CHR 0x0A], [CHR 0x0B], [CHR 0x0C], [CHR 0x0D], [CHR 0x20],
      [CHR 0xC2, CHR 0xA0], [CHR 0xE1, CHR 0x9A, CHR 0x80],
      [CHR 0xE2, CHR 0x80, CHR 0x80], [CHR 0xE2, CHR 0x80, CHR 0x81],
      [CHR 0xE2, CHR 0x80, CHR 0x82], [CHR 0xE2, CHR 0x80, CHR 0x83],
      [CHR 0xE2, CHR 0x80, CHR 0x84], [CHR 0xE2, CHR 0x80, CHR 0x85],
      [CHR 0xE2, CHR 0x80, CHR 0x86], [CHR 0xE2, CHR 0x80, CHR 0x87],
      [CHR 0xE2, CHR 0x80, CHR 0x88], [CHR 0xE2, CHR 0x80, CHR 0x89],
      [CHR 0xE2, CHR 0x80, CHR 0x8A], [CHR 0xE2, CHR 0x80, CHR 0xA8],
      [CHR 0xE2, CHR 0x80, CHR 0xA9], [CHR 0xE2, CHR 0x80, CHR 0xAF],
      [CHR 0xE2, CHR 0x81, CHR 0x9F], [CHR 0xE3, CHR 0x80, CHR 0x80],
      [CHR 0xEF, CHR 0xBB, CHR 0xBF]]"

text \<open>Removing from the front of \<open>s\<close>, as long as there is one, a leading sequence of \<open>ws\<close>.\<close>

function strip :: "string list \<Rightarrow> string \<Rightarrow> string" where
  "strip ws s =
     (case find (\<lambda>w. w \<noteq> [] \<and> take (length w) s = w) ws of
        None \<Rightarrow> s
      | Some w \<Rightarrow> strip ws (drop (length w) s))"
  by pat_completeness auto
termination
proof (relation "measure (\<lambda>(ws, s). length s)")
  show "wf (measure (\<lambda>(ws, s). length s))" by simp
next
  fix ws :: "string list" and s w :: string
  assume "find (\<lambda>w. w \<noteq> [] \<and> take (length w) s = w) ws = Some w"
  then have "w \<noteq> []" and "take (length w) s = w"
    by (auto simp: find_Some_iff)
  then have "s \<noteq> []" by auto
  with \<open>w \<noteq> []\<close> show "((ws, drop (length w) s), (ws, s)) \<in> measure (\<lambda>(ws, s). length s)"
    by simp
qed

declare strip.simps [simp del]

definition String_trim :: "string \<Rightarrow> string" where
  "String_trim s = rev (strip (map rev WhiteSpace) (rev (strip WhiteSpace s)))"

text \<open>\<open>!toBin || toBin.trim() === ''\<close> for a form value that may be \<open>null\<close>.\<close>

definition blank :: "string option \<Rightarrow> bool" where
  "blank v = (case v of None \<Rightarrow> True | Some s \<Rightarrow> s = [] \<or> String_trim s = [])"

text \<open>\<open>parseFloat(v) || 0\<close> on the value of the number field.\<close>

definition parseFloat_or_0 :: "number option \<Rightarrow> number" where
  "parseFloat_or_0 v = (case v of None \<Rightarrow> 0 | Some x \<Rightarrow> x)"

text \<open>\<open>v || ''\<close> on a text field that is \<open>null\<close> after a form reset.\<close>

definition or_empty :: "string option \<Rightarrow> string" where
  "or_empty v = (case v of None \<Rightarrow> [] | Some s \<Rightarrow> s)"

text \<open>
  What \<open>setError\<close> records. The message texts are fixed by the kind of the error and
  the two figures interpolated into them; \<open>CommittedExceeded requested available\<close> is
  ``Cannot transfer more than committed quantity'' with the details
  \<open>{ requested, available }\<close>, \<open>QuantityMismatch selected target\<close> is ``Quantity
  mismatch: selected ... but target was ...'', \<open>DestinationBinRequired\<close> is the request
  for a destination bin.
\<close>

datatype ui_error =
    DestinationBinRequired
  | CommittedExceeded number number
  | QuantityMismatch Number number

text \<open>The signals and form controls of \<open>PutawayComponent\<close> that the handlers read and write.\<close>

record component =
  selectedLot :: "LotDetails option"
  toBinNumber :: "string option"
  putawayQty :: "number option"
  printReport :: bool
  remarks :: "string option"
  referenced :: "string option"
  currentUser :: "string option"
  targetTransferQty :: number
  isTransactionModalOpen :: bool
  isProcessing :: bool
  error :: "ui_error option"

text \<open>The body of the request sent to \<open>POST /api/putaway/transfer/committed\<close>.\<close>

record CommittedTransferRequest =
  c_lot_no :: string
  c_item_key :: string
  c_location :: string
  c_source_bin :: string
  c_to_bin :: string
  c_transfer_qty :: number
  c_user_id :: string
  c_remarks :: string
  c_referenced :: string

definition setError :: "ui_error \<Rightarrow> component \<Rightarrow> component" where
  "setError e c = c\<lparr>error := Some e\<rparr>"

definition clearMessages :: "component \<Rightarrow> component" where
  "clearMessages c = c\<lparr>error := None\<rparr>"

text \<open>
  \<open>executeCommittedTransfer\<close> up to the call of the service: the new state of the
  component and the request that is sent, if one is sent.
\<close>

definition executeCommittedTransfer ::
  "number \<Rightarrow> component \<Rightarrow> component \<times> CommittedTransferRequest option" where
  "executeCommittedTransfer transferQty c =
     (case selectedLot c of
        None \<Rightarrow> (c, None)
      | Some lot \<Rightarrow>
          if blank (toBinNumber c) then (setError DestinationBinRequired c, None)
          else
            (clearMessages (c\<lparr>isProcessing := True\<rparr>),
             Some \<lparr>c_lot_no = lotNumber lot, c_item_key = itemKey lot,
               c_location = location lot, c_source_bin = binNumber lot,
               c_to_bin = or_empty (toBinNumber c), c_transfer_qty = transferQty,
               c_user_id = (case currentUser c of None \<Rightarrow> ''unknown''
                             | Some u \<Rightarrow> if u = [] then ''unknown'' else u),
               c_remarks = or_empty (remarks c), c_referenced = or_empty (referenced c)\<rparr>))"

text \<open>
  \<open>openTransactionModal\<close>: \<open>putawayQty > qtyCommitSales\<close> compares the two numbers as
  they are; \<open>Math.abs(putawayQty - qtyCommitSales) < 0.001\<close> compares the rounded
  difference with the double \<open>0.001\<close>.
\<close>

definition openTransactionModal ::
  "component \<Rightarrow> component \<times> CommittedTransferRequest option" where
  "openTransactionModal c =
     (case selectedLot c of
        None \<Rightarrow> (c, None)
      | Some lot \<Rightarrow>
          if blank (toBinNumber c) then (setError DestinationBinRequired c, None)
          else
            let putawayQty = parseFloat_or_0 (putawayQty c);
                qtyCommitSales = qtyCommitSales lot
            in
              if putawayQty > qtyCommitSales
              then (setError (CommittedExceeded putawayQty qtyCommitSales) c, None)
              else if js_less (Math_abs (js_minus (Num putawayQty) (Num qtyCommitSales)))
                        (lit (1 / 1000))
              then executeCommittedTransfer putawayQty c
              else
                (clearMessages (c\<lparr>targetTransferQty := putawayQty\<rparr>)
                   \<lparr>isTransactionModalOpen := True\<rparr>,
                 None))"

definition onTransactionModalClosed :: "component \<Rightarrow> component" where
  "onTransactionModalClosed c = c\<lparr>isTransactionModalOpen := False, targetTransferQty := 0\<rparr>"

text \<open>\<open>if (Math.abs(selectedTotalQty - transferQty) > 0.001)\<close> records the mismatch.\<close>

definition onTransactionsSelected ::
  "Number \<Rightarrow> component \<Rightarrow> component \<times> CommittedTransferRequest option" where
  "onTransactionsSelected selectedTotal c =
     (let transferQty = targetTransferQty c in
      if js_greater (Math_abs (js_minus selectedTotal (Num transferQty))) (lit (1 / 1000))
      then (setError (QuantityMismatch selectedTotal transferQty) c, None)
      else executeCommittedTransfer transferQty c)"

text \<open>
  The modal as the component's template instantiates it: \<open>[targetQty]="targetTransferQty()"\<close>,
  with the rows loaded for the lot and the ids the user ticked.
\<close>

definition modal_of :: "component \<Rightarrow> LotTransactionItem list \<Rightarrow> nat fset \<Rightarrow> modal" where
  "modal_of c rows ids = \<lparr>transactions = rows, selectedIds = ids, targetQty = targetTransferQty c\<rparr>"

text \<open>
  A click on Confirm: nothing when the button is disabled; otherwise \<open>onConfirm\<close> emits
  the selected total to \<open>onTransactionsSelected\<close>, which runs up to the service call
  before \<open>onClose\<close> makes the parent reset \<open>targetTransferQty\<close>.
\<close>

definition confirmSelection ::
  "LotTransactionItem list \<Rightarrow> nat fset \<Rightarrow> component \<Rightarrow> component \<times> CommittedTransferRequest option" where
  "confirmSelection rows ids c =
     (case clickConfirm (modal_of c rows ids) of
        None \<Rightarrow> (c, None)
      | Some emitted \<Rightarrow>
          (let (c', sent) = onTransactionsSelected emitted c
           in (onTransactionModalClosed c', sent)))"

text \<open>Scenario values: the lot of scenarios S4 and S5 with a given commitment, a filled form.\<close>

definition lot_S :: "number \<Rightarrow> LotDetails" where
  "lot_S committed =
     \<lparr>lotNumber = ''2600107-1'', binNumber = ''K0802-4B'', itemKey = ''INBC1403'',
      location = ''TFC1'', uom = ''KG'', qtyCommitSales = committed, qtyOnHand = 975,
      qtyAvail = 975 - committed, expDate = ''2027-05-07'', lotStatus = ''P''\<rparr>"

definition comp_S :: "number \<Rightarrow> number option \<Rightarrow> component" where
  "comp_S committed q =
     \<lparr>selectedLot = Some (lot_S committed), toBinNumber = Some ''WHKON1'', putawayQty = q,
      printReport = True, remarks = None, referenced = None, currentUser = Some ''DECHAWAT'',
      targetTransferQty = 0, isTransactionModalOpen = False, isProcessing = False,
      error = None\<rparr>"

text \<open>
  The component after \<open>openTransactionModal\<close>, for the entered quantity \<open>t\<close> against
  a commitment of 500: for \<open>t\<close> well below 500 the selection modal is open with target
  \<open>t\<close>.
\<close>

definition comp_open :: "number \<Rightarrow> component" where
  "comp_open t = fst (openTransactionModal (comp_S 500 (Some t)))"

section \<open>The requests of the free-quantity path\<close>

text \<open>\<open>BinTransferRequest\<close>, the body of \<open>POST /api/putaway/transfer\<close>.\<close>

record BinTransferRequest =
  f_lot_no :: string
  f_item_key :: string
  f_location :: string
  f_bin_from :: string
  f_bin_to :: string
  f_transfer_qty :: number
  f_user_id :: string
  f_remarks :: string
  f_referenced :: string

text \<open>
  Modelled from the spec: ``all string fields are trimmed'' (section 6), which the
  absent backend does; white space is tab, line feed, vertical tab, form feed, carriage
  return and space.
\<close>

definition is_white_space :: "char \<Rightarrow> bool" where
  "is_white_space c \<longleftrightarrow> c \<in> {CHR 0x09, CHR 0x0A, CHR 0x0B, CHR 0x0C, CHR 0x0D, CHR 0x20}"

definition trim :: "string \<Rightarrow> string" where
  "trim s = rev (dropWhile is_white_space (rev (dropWhile is_white_space s)))"

section \<open>The inventory store, from the recorded transaction flow\<close>

text \<open>
  The tables and statements are those of the recorded SQL flow of a bin transfer
  (\<open>Docs/Putaway-Bme-Transaction.md\<close>), with the literal values of the recorded test case
  replaced by parameters. A column that an \<open>INSERT\<close> does not list is \<open>NULL\<close>
  (\<open>None\<close>). Dates are kept as the strings the statements carry. String comparison is
  equality.
\<close>

record lot_columns =
  LotNo :: string
  ItemKey :: string
  LocationKey :: string
  BinNo :: string
  DateReceived :: string
  DateExpiry :: string
  VendorlotNo :: string

record LotMaster_row = lot_columns +
  VendorKey :: string
  QtyOnHand :: number
  Qtycommitsales :: number
  QtyReserved :: number
  LotStatus :: string

record LotTransaction_row = lot_columns +
  TransactionType :: nat
  IssueDocNo :: "string option"
  IssueDocLineNo :: "nat option"
  IssueDate :: "string option"
  QtyIssued :: "number option"
  ReceiptDocNo :: "string option"
  ReceiptDocLineNo :: "nat option"
  QtyReceived :: "number option"
  Vendorkey :: "string option"
  CustomerKey :: "string option"
  RecUserid :: string
  RecDate :: string
  Processed :: char
  DateQuarantine :: "string option"

text \<open>
  \<open>BinMaster\<close> rows are \<open>(BinNo, Location)\<close>; \<open>inmast\<close> rows are
  \<open>(itemkey, seriallotFlg, MultipleBinsreq)\<close>; \<open>INLOC\<close> rows are
  \<open>(ItemKey, Location, Physinprogress)\<close>; \<open>SeqNum\<close> is the value of the row
  \<open>SeqName = 'BT'\<close>; \<open>Freeze_Inventory\<close> is whether the parameter of that name is set.
\<close>

record db =
  LotMaster :: "LotMaster_row list"
  LotTransaction :: "LotTransaction_row list"
  QCLotTransaction :: "LotTransaction_row list"
  SeqNum :: nat
  BinMaster :: "(string \<times> string) list"
  inmast :: "(string \<times> char \<times> char) list"
  INLOC :: "(string \<times> string \<times> bool) list"
  Freeze_Inventory :: bool

text \<open>\<open>WHERE Itemkey = .. AND LocationKey = .. AND LotNo = .. AND BinNo = ..\<close>\<close>

definition at_key :: "string \<Rightarrow> string \<Rightarrow> string \<Rightarrow> string \<Rightarrow> 'a lot_columns_scheme \<Rightarrow> bool" where
  "at_key item loc lot bin r \<longleftrightarrow>
     ItemKey r = item \<and> LocationKey r = loc \<and> LotNo r = lot \<and> BinNo r = bin"

text \<open>\<open>Processed IN ('N','P') and TransactionType In (2,3,5,7,9,10,12,16,17,20,21)\<close>\<close>

definition pending_outbound :: "LotTransaction_row \<Rightarrow> bool" where
  "pending_outbound r \<longleftrightarrow>
     Processed r \<in> {CHR ''N'', CHR ''P''} \<and>
     TransactionType r \<in> {2, 3, 5, 7, 9, 10, 12, 16, 17, 20, 21}"

text \<open>SQL \<open>SUM\<close>: \<open>NULL\<close> values are skipped, and the sum of no value is \<open>NULL\<close>.\<close>

definition SUM_sql :: "number option list \<Rightarrow> number option" where
  "SUM_sql vs = (case List.map_filter id vs of [] \<Rightarrow> None | x # xs \<Rightarrow> Some (sum_list (x # xs)))"

text \<open>
  Query 1.3, the commitment: \<open>SUM(QtyIssued)\<close> over the pending outbound rows of
  \<open>LotTransaction\<close> \<open>UNION ALL\<close> those of \<open>QCLotTransaction\<close>, at one key.
\<close>

definition Commitment :: "db \<Rightarrow> string \<Rightarrow> string \<Rightarrow> string \<Rightarrow> string \<Rightarrow> number option" where
  "Commitment d item loc lot bin =
     SUM_sql (map QtyIssued
                (filter (\<lambda>r. pending_outbound r \<and> at_key item loc lot bin r) (LotTransaction d))
              @ map QtyIssued
                (filter (\<lambda>r. pending_outbound r \<and> at_key item loc lot bin r) (QCLotTransaction d)))"

text \<open>Steps 4.1 and 4.2 read the lot row at a key.\<close>

definition lot_row :: "db \<Rightarrow> string \<Rightarrow> string \<Rightarrow> string \<Rightarrow> string \<Rightarrow> LotMaster_row option" where
  "lot_row d item loc lot bin = find (at_key item loc lot bin) (LotMaster d)"

text \<open>
  Step 4.3 with the sign as a parameter:
  \<open>UPDATE LotMaster SET Qtycommitsales = Qtycommitsales + delta WHERE\<close> key.
\<close>

definition UPDATE_Qtycommitsales ::
  "number \<Rightarrow> string \<Rightarrow> string \<Rightarrow> string \<Rightarrow> string \<Rightarrow> db \<Rightarrow> db" where
  "UPDATE_Qtycommitsales delta item loc lot bin d =
     d\<lparr>LotMaster :=
         map (\<lambda>r. if at_key item loc lot bin r
                   then r\<lparr>Qtycommitsales := Qtycommitsales r + delta\<rparr> else r)
           (LotMaster d)\<rparr>"

text \<open>Step 5.1, the source leg: transaction type 9, the issue columns, \<open>Processed = 'N'\<close>.\<close>

definition source_leg ::
  "LotMaster_row \<Rightarrow> string \<Rightarrow> number \<Rightarrow> string \<Rightarrow> string \<Rightarrow> LotTransaction_row" where
  "source_leg src doc q user today =
     \<lparr>LotNo = LotNo src, ItemKey = ItemKey src, LocationKey = LocationKey src,
      BinNo = BinNo src, DateReceived = DateReceived src, DateExpiry = DateExpiry src,
      VendorlotNo = VendorlotNo src, TransactionType = 9, IssueDocNo = Some doc,
      IssueDocLineNo = Some 1, IssueDate = Some today, QtyIssued = Some q,
      ReceiptDocNo = None, ReceiptDocLineNo = None, QtyReceived = None, Vendorkey = None,
      CustomerKey = None, RecUserid = user, RecDate = today, Processed = CHR ''N'',
      DateQuarantine = None\<rparr>"

text \<open>
  Step 5.2, the destination leg: transaction type 8, the receipt columns, the vendor of
  the source lot, \<open>CustomerKey = ''\<close>, \<open>DateQuarantine = NULL\<close>, \<open>Processed = 'N'\<close>.
\<close>

definition destination_leg ::
  "LotMaster_row \<Rightarrow> string \<Rightarrow> string \<Rightarrow> number \<Rightarrow> string \<Rightarrow> string \<Rightarrow> LotTransaction_row" where
  "destination_leg src bin_to doc q user today =
     \<lparr>LotNo = LotNo src, ItemKey = ItemKey src, LocationKey = LocationKey src,
      BinNo = bin_to, DateReceived = DateReceived src, DateExpiry = DateExpiry src,
      VendorlotNo = VendorlotNo src, TransactionType = 8, IssueDocNo = None,
      IssueDocLineNo = None, IssueDate = None, QtyIssued = None,
      ReceiptDocNo = Some doc, ReceiptDocLineNo = Some 1, QtyReceived = Some q,
      Vendorkey = Some (VendorKey src), CustomerKey = Some [], RecUserid = user,
      RecDate = today, Processed = CHR ''N'', DateQuarantine = None\<rparr>"

definition INSERT_LotTransaction :: "LotTransaction_row \<Rightarrow> db \<Rightarrow> db" where
  "INSERT_LotTransaction r d = d\<lparr>LotTransaction := LotTransaction d @ [r]\<rparr>"

subsection \<open>Document numbers\<close>

text \<open>A natural number in decimal, as it is appended to \<open>BT-\<close>.\<close>

definition digit_char :: "nat \<Rightarrow> char" where
  "digit_char d = ''0123456789'' ! (d mod 10)"

function decimal :: "nat \<Rightarrow> string" where
  "decimal n = (if n < 10 then [digit_char n] else decimal (n div 10) @ [digit_char (n mod 10)])"
  by pat_completeness auto
termination
  by (relation "measure id") auto

declare decimal.simps [simp del]

text \<open>
  Phase 3: the row \<open>SeqName = 'BT'\<close> is fetched and written back incremented; the
  document number is \<open>BT-\<close> followed by the value written. \<open>next_BT\<close> maps the value
  of the counter to the document number and the new value.
\<close>

definition next_BT :: "nat \<Rightarrow> string \<times> nat" where
  "next_BT counter = (''BT-'' @ decimal (counter + 1), counter + 1)"

section \<open>The transfer engine\<close>

text \<open>
  The backend that answers \<open>/api/putaway/transfer\<close> and
  \<open>/api/putaway/transfer/committed\<close> is not among the sources. The definitions of this
  section put the statements of the recorded flow above in the order and under the
  checks of the specification (sections 4.1 to 4.5); each says which sentences it follows.
\<close>

datatype error_kind =
    LotNotFound
  | InvalidBin
  | InsufficientQuantity number number
  | InsufficientCommitted number number
  | SelectionMismatch
  | InventoryFrozen
  | PhysicalCountInProgress
  | NotTransferrable
  | Unauthorized
  | Contention
  | Timeout
  | SystemError
  | InvariantViolation
  | QuantityRejected

record AvailabilityView =
  on_hand :: number
  committed_sales :: number
  available :: number
  pending_commit :: number

text \<open>
  Modelled from the spec: the availability calculator (4.1), which is not among the
  sources. Output \<open>{ on_hand, committed_sales, available, pending_commit }\<close> with
  \<open>available = on_hand - committed_sales\<close> and \<open>pending_commit\<close> the commitment query
  above (no row to sum gives \<open>0\<close>); an absent lot row fails \<open>LotNotFound\<close>, a negative
  \<open>on_hand - committed_sales\<close> fails \<open>InvariantViolation\<close>.
\<close>

definition searchAvailability ::
  "db \<Rightarrow> string \<Rightarrow> string \<Rightarrow> string \<Rightarrow> string \<Rightarrow> error_kind + AvailabilityView" where
  "searchAvailability d item loc lot bin =
     (case lot_row d item loc lot bin of
        None \<Rightarrow> Inl LotNotFound
      | Some r \<Rightarrow>
          if QtyOnHand r - Qtycommitsales r < 0 then Inl InvariantViolation
          else Inr \<lparr>on_hand = QtyOnHand r, committed_sales = Qtycommitsales r,
                 available = QtyOnHand r - Qtycommitsales r,
                 pending_commit =
                   (case Commitment d item loc lot bin of None \<Rightarrow> 0 | Some s \<Rightarrow> s)\<rparr>)"

text \<open>
  Modelled from the spec: the precondition gate (4.2), which is not among the sources.
  Ordered checks, the first failure wins: the destination bin is non-empty and differs
  from the source bin; it exists in the location per the bin master; the freeze flag is
  off; no physical count is in progress for the item at the location; the item is
  serial-lot-tracked and multi-bin-enabled (query 1.2: \<open>seriallotFlg <> 'N'\<close> and
  \<open>MultipleBinsreq = 'Y'\<close>); the lot row at the source bin exists. The strings arrive
  trimmed.
\<close>

definition gate ::
  "db \<Rightarrow> string \<Rightarrow> string \<Rightarrow> string \<Rightarrow> string \<Rightarrow> string \<Rightarrow> error_kind + LotMaster_row" where
  "gate d item loc lot bin_from bin_to =
     (if bin_to = [] \<or> bin_to = bin_from then Inl InvalidBin
      else if (bin_to, loc) \<notin> set (BinMaster d) then Inl InvalidBin
      else if Freeze_Inventory d then Inl InventoryFrozen
      else if (item, loc, True) \<in> set (INLOC d) then Inl PhysicalCountInProgress
      else if \<not> list_ex (\<lambda>(i, s, m). i = item \<and> s \<noteq> CHR ''N'' \<and> m = CHR ''Y'') (inmast d)
      then Inl NotTransferrable
      else (case lot_row d item loc lot bin_from of
              None \<Rightarrow> Inl LotNotFound
            | Some src \<Rightarrow> Inr src))"

text \<open>
  The success output \<open>{ document_no, source_lot_status, destination_lot_status, timestamp }\<close>
  (4.4), and the response on the wire, which adds \<open>success\<close> and \<open>message\<close>; the
  component reads the latter as \<open>TransactionResponse\<close>, where the two statuses may be
  missing.
\<close>

record TransferResult =
  document_no :: string
  source_lot_status :: "string option"
  destination_lot_status :: "string option"
  timestamp :: string

record TransactionResponse = TransferResult +
  success :: bool
  message :: string

text \<open>
  Modelled from the spec: \<open>destination_lot_status\<close> (4.4), which the absent backend
  computes: the source status, unless a destination lot row already exists with a
  different status, and then that row's status.
\<close>

definition destination_status :: "LotMaster_row \<Rightarrow> LotMaster_row option \<Rightarrow> string" where
  "destination_status src dst =
     (case dst of
        None \<Rightarrow> LotStatus src
      | Some r \<Rightarrow> if LotStatus r \<noteq> LotStatus src then LotStatus r else LotStatus src)"

text \<open>
  The writes of one transfer, in the order of the recorded flow: phase 3 (document
  number), step 4.3 (commitment, by \<open>delta\<close>), steps 5.1 and 5.2 (the two legs).
  \<open>today\<close> is the date the legs carry, \<open>ts\<close> the time stamp of the result.
\<close>

definition commit_transfer ::
  "number \<Rightarrow> LotMaster_row \<Rightarrow> string \<Rightarrow> number \<Rightarrow> string \<Rightarrow> string \<Rightarrow> string \<Rightarrow> db
     \<Rightarrow> TransferResult \<times> db" where
  "commit_transfer delta src bin_to q user today ts d =
     (let (doc, n) = next_BT (SeqNum d);
          d1 = d\<lparr>SeqNum := n\<rparr>;
          d2 = UPDATE_Qtycommitsales delta (ItemKey src) (LocationKey src) (LotNo src)
                 (BinNo src) d1;
          d3 = INSERT_LotTransaction (source_leg src doc q user today) d2;
          d4 = INSERT_LotTransaction (destination_leg src bin_to doc q user today) d3
      in (\<lparr>document_no = doc, source_lot_status = Some (LotStatus src),
           destination_lot_status =
             Some (destination_status src
                     (lot_row d (ItemKey src) (LocationKey src) (LotNo src) bin_to)),
           timestamp = ts\<rparr>, d4))"

text \<open>\<open>qty\<close> has at most three decimals.\<close>

definition three_decimals :: "number \<Rightarrow> bool" where
  "three_decimals q \<longleftrightarrow> of_int \<lfloor>q * 1000\<rfloor> = q * 1000"

text \<open>
  Modelled from the spec: the free-quantity path (4.4), which is not among the sources.
  The quantity is positive with at most three decimals (section 8: \<open>qty = 0\<close> rejected,
  four decimals rejected; the specification names no error kind for this, here
  \<open>QuantityRejected\<close>); gate; availability re-read; \<open>qty > available\<close> fails
  \<open>InsufficientQuantity {requested, available}\<close>, differences below \<open>10\<^sup>-\<^sup>3\<close> counting
  as equal; then the writes, with \<open>committed_sales + qty\<close>. A failure leaves the store
  as it was.
\<close>

definition transfer ::
  "string \<Rightarrow> string \<Rightarrow> BinTransferRequest \<Rightarrow> db \<Rightarrow> error_kind + TransferResult \<times> db" where
  "transfer today ts req d =
     (let item = trim (f_item_key req); loc = trim (f_location req);
          lot = trim (f_lot_no req); bin_from = trim (f_bin_from req);
          bin_to = trim (f_bin_to req); q = f_transfer_qty req
      in
        if \<not> (q > 0 \<and> three_decimals q) then Inl QuantityRejected
        else
          (case gate d item loc lot bin_from bin_to of
             Inl e \<Rightarrow> Inl e
           | Inr src \<Rightarrow>
               (case searchAvailability d item loc lot bin_from of
                  Inl e \<Rightarrow> Inl e
                | Inr v \<Rightarrow>
                    if q > available v \<and> \<not> \<bar>q - available v\<bar> < 1 / 1000
                    then Inl (InsufficientQuantity q (available v))
                    else Inr (commit_transfer q src bin_to q (f_user_id req) today ts d))))"

text \<open>
  Modelled from the spec: the committed-quantity path (4.5), which is not among the
  sources. Gate; the source row re-read and \<open>committed_sales \<ge> qty\<close> verified, else
  \<open>InsufficientCommitted\<close> with both figures; then the writes, with
  \<open>committed_sales - qty\<close> and the paired rows exactly as on the free path.
\<close>

definition transferCommitted ::
  "string \<Rightarrow> string \<Rightarrow> CommittedTransferRequest \<Rightarrow> db \<Rightarrow> error_kind + TransferResult \<times> db" where
  "transferCommitted today ts req d =
     (let item = trim (c_item_key req); loc = trim (c_location req);
          lot = trim (c_lot_no req); bin_from = trim (c_source_bin req);
          bin_to = trim (c_to_bin req); q = c_transfer_qty req
      in
        (case gate d item loc lot bin_from bin_to of
           Inl e \<Rightarrow> Inl e
         | Inr src \<Rightarrow>
             if \<not> Qtycommitsales src \<ge> q
             then Inl (InsufficientCommitted q (Qtycommitsales src))
             else Inr (commit_transfer (- q) src bin_to q (c_user_id req) today ts d)))"

text \<open>The issued quantity of a row as \<open>SUM\<close> counts it: \<open>NULL\<close> adds nothing.\<close>

definition issued :: "LotTransaction_row \<Rightarrow> number" where
  "issued r = (case QtyIssued r of None \<Rightarrow> 0 | Some q \<Rightarrow> q)"

text \<open>
  The pre-state of scenarios S1 and S4, with the values of the recorded test case: lot
  \<open>2600107-1\<close> of item \<open>INBC1403\<close> at \<open>TFC1\<close>, 975 on hand and 50 committed in bin
  \<open>K0802-4B\<close>, 3350 on hand in bin \<open>WHKON1\<close>, one pending sales issue of 50 against the
  source bin, the counter at 26112173.
\<close>

definition S1_source :: LotMaster_row where
  "S1_source =
     \<lparr>LotNo = ''2600107-1'', ItemKey = ''INBC1403'', LocationKey = ''TFC1'',
      BinNo = ''K0802-4B'', DateReceived = ''2025-08-07 08:36:02'',
      DateExpiry = ''2027-05-07 00:00:00'', VendorlotNo = ''07-05-25'', VendorKey = ''NZSUS'',
      QtyOnHand = 975, Qtycommitsales = 50, QtyReserved = 0, LotStatus = ''P''\<rparr>"

definition S1_destination :: LotMaster_row where
  "S1_destination =
     \<lparr>LotNo = ''2600107-1'', ItemKey = ''INBC1403'', LocationKey = ''TFC1'',
      BinNo = ''WHKON1'', DateReceived = ''2025-08-07 08:36:02'',
      DateExpiry = ''2027-05-07 00:00:00'', VendorlotNo = ''07-05-25'', VendorKey = ''NZSUS'',
      QtyOnHand = 3350, Qtycommitsales = 0, QtyReserved = 0, LotStatus = ''C''\<rparr>"

definition S1_pending :: LotTransaction_row where
  "S1_pending =
     \<lparr>LotNo = ''2600107-1'', ItemKey = ''INBC1403'', LocationKey = ''TFC1'',
      BinNo = ''K0802-4B'', DateReceived = ''2025-08-07 08:36:02'',
      DateExpiry = ''2027-05-07 00:00:00'', VendorlotNo = ''07-05-25'', TransactionType = 3,
      IssueDocNo = Some ''SO-1'', IssueDocLineNo = Some 1,
      IssueDate = Some ''2026-02-10 00:00:00'', QtyIssued = Some 50, ReceiptDocNo = None,
      ReceiptDocLineNo = None, QtyReceived = None, Vendorkey = None, CustomerKey = None,
      RecUserid = ''SALES'', RecDate = ''2026-02-10 00:00:00'', Processed = CHR ''N'',
      DateQuarantine = None\<rparr>"

definition S1_db :: db where
  "S1_db =
     \<lparr>LotMaster = [S1_source, S1_destination], LotTransaction = [S1_pending],
      QCLotTransaction = [], SeqNum = 26112173,
      BinMaster = [(''K0802-4B'', ''TFC1''), (''WHKON1'', ''TFC1'')],
      inmast = [(''INBC1403'', CHR ''Y'', CHR ''Y'')],
      INLOC = [(''INBC1403'', ''TFC1'', False)], Freeze_Inventory = False\<rparr>"

definition S1_request :: "number \<Rightarrow> BinTransferRequest" where
  "S1_request q =
     \<lparr>f_lot_no = ''2600107-1'', f_item_key = ''INBC1403'', f_location = ''TFC1'',
      f_bin_from = ''K0802-4B'', f_bin_to = ''WHKON1'', f_transfer_qty = q,
      f_user_id = ''DECHAWAT'', f_remarks = [], f_referenced = []\<rparr>"

definition S4_request :: "number \<Rightarrow> CommittedTransferRequest" where
  "S4_request q =
     \<lparr>c_lot_no = ''2600107-1'', c_item_key = ''INBC1403'', c_location = ''TFC1'',
      c_source_bin = ''K0802-4B'', c_to_bin = ''WHKON1'', c_transfer_qty = q,
      c_user_id = ''DECHAWAT'', c_remarks = [], c_referenced = []\<rparr>"

text \<open>
  Modelled from the spec: requests served one after the other (section 5: transfers on
  one source row are serialized; section 7: no partial success), the serving code not
  being among the sources. Each request comes with the clock values of its transaction;
  a request that fails is rolled back and leaves the store as it was. The result is the
  document numbers of the successful transfers, in order, and the final store.
\<close>

datatype request = Free BinTransferRequest | Committed CommittedTransferRequest

fun serve :: "(string \<times> string \<times> request) list \<Rightarrow> db \<Rightarrow> string list \<times> db" where
  "serve [] d = ([], d)"
| "serve ((today, ts, r) # rs) d =
     (case (case r of Free q \<Rightarrow> transfer today ts q d
                    | Committed q \<Rightarrow> transferCommitted today ts q d) of
        Inl e \<Rightarrow> serve rs d
      | Inr (res, d') \<Rightarrow> (document_no res # fst (serve rs d'), snd (serve rs d')))"

subsection \<open>Document numbering under concurrent transactions\<close>

text \<open>
  Modelled from the spec: the allocation of document numbers by concurrent transactions
  (4.3 and 5), which is not among the sources. A transaction takes the lock on the
  counter row and reads it (\<open>SELECT ... FOR UPDATE\<close>), writes the incremented value
  (\<open>UPDATE counter = counter + 1\<close>, the statement of phase 3) and commits, which
  releases the lock and issues the document number; or it rolls back, which restores
  the counter and releases the lock. Steps of different transactions interleave in any
  order; a step that needs the lock while another transaction holds it cannot fire.
  \<open>issued_log\<close> lists the document numbers in the order of their commits.
\<close>

datatype alloc = Waiting | Read nat | Bumped nat string | Issued string | Aborted

record numbering =
  counter :: nat
  holder :: "nat option"
  pc :: "nat \<Rightarrow> alloc"
  issued_log :: "(nat \<times> string) list"

datatype event = SelectForUpdate nat | Update nat | Commit nat | Rollback nat

text \<open>
  Modelled from the spec: the state before any transaction has started, the counter at
  \<open>c0\<close> and the lock free.
\<close>

definition init :: "nat \<Rightarrow> numbering" where
  "init c0 = \<lparr>counter = c0, holder = None, pc = (\<lambda>t. Waiting), issued_log = []\<rparr>"

text \<open>
  Modelled from the spec: one step of transaction \<open>t\<close>; \<open>None\<close> when the step cannot
  fire in this state.
\<close>

fun fire :: "event \<Rightarrow> numbering \<Rightarrow> numbering option" where
  "fire (SelectForUpdate t) s =
     (if holder s = None \<and> pc s t = Waiting
      then Some (s\<lparr>holder := Some t, pc := (pc s)(t := Read (counter s))\<rparr>)
      else None)"
| "fire (Update t) s =
     (case pc s t of
        Read v \<Rightarrow>
          if holder s = Some t
          then Some (s\<lparr>counter := snd (next_BT v),
                       pc := (pc s)(t := Bumped v (fst (next_BT v)))\<rparr>)
          else None
      | _ \<Rightarrow> None)"
| "fire (Commit t) s =
     (case pc s t of
        Bumped v doc \<Rightarrow>
          if holder s = Some t
          then Some (s\<lparr>holder := None, pc := (pc s)(t := Issued doc),
                       issued_log := issued_log s @ [(t, doc)]\<rparr>)
          else None
      | _ \<Rightarrow> None)"
| "fire (Rollback t) s =
     (case pc s t of
        Read v \<Rightarrow>
          if holder s = Some t
          then Some (s\<lparr>holder := None, pc := (pc s)(t := Aborted)\<rparr>)
          else None
      | Bumped v doc \<Rightarrow>
          if holder s = Some t
          then Some (s\<lparr>counter := v, holder := None, pc := (pc s)(t := Aborted)\<rparr>)
          else None
      | _ \<Rightarrow> None)"

text \<open>Modelled from the spec: a schedule, the steps fired in the order given.\<close>

fun run :: "event list \<Rightarrow> numbering \<Rightarrow> numbering option" where
  "run [] s = Some s"
| "run (e # es) s = (case fire e s of None \<Rightarrow> None | Some s' \<Rightarrow> run es s')"

text \<open>
  The value of the counter row as committed: what the holder of the lock has written
  but not committed does not count.
\<close>

definition committed_counter :: "numbering \<Rightarrow> nat" where
  "committed_counter s =
     (case holder s of
        None \<Rightarrow> counter s
      | Some t \<Rightarrow> (case pc s t of Bumped v doc \<Rightarrow> v | _ \<Rightarrow> counter s))"

text \<open>What every state of a run satisfies, from the counter value \<open>c0\<close> at the start.\<close>

definition numbering_inv :: "nat \<Rightarrow> numbering \<Rightarrow> bool" where
  "numbering_inv c0 s \<longleftrightarrow>
     (\<forall>t v. pc s t = Read v \<longrightarrow> holder s = Some t \<and> counter s = v) \<and>
     (\<forall>t v doc. pc s t = Bumped v doc \<longrightarrow>
        holder s = Some t \<and> counter s = v + 1 \<and> doc = ''BT-'' @ decimal (v + 1)) \<and>
     (\<forall>t. holder s = Some t \<longrightarrow> (\<exists>v. pc s t = Read v) \<or> (\<exists>v doc. pc s t = Bumped v doc)) \<and>
     committed_counter s = c0 + length (issued_log s) \<and>
     map snd (issued_log s)
       = map (\<lambda>n. ''BT-'' @ decimal n) [c0 + 1 ..< c0 + 1 + length (issued_log s)] \<and>
     (\<forall>t doc. pc s t = Issued doc \<longrightarrow> (t, doc) \<in> set (issued_log s))"

text \<open>Reading a decimal numeral back, to tell document numbers apart.\<close>

definition digit_val :: "char \<Rightarrow> nat" where
  "digit_val c = length (takeWhile (\<lambda>x. x \<noteq> c) ''0123456789'')"

definition undecimal :: "string \<Rightarrow> nat" where
  "undecimal s = foldl (\<lambda>a c. 10 * a + digit_val c) 0 s"

text \<open>
  A schedule of three transactions: the first commits, the second rolls back after its
  update, the third commits.
\<close>

definition S9_schedule :: "event list" where
  "S9_schedule =
     [SelectForUpdate 1, Update 1, Commit 1, SelectForUpdate 2, Update 2, Rollback 2,
      SelectForUpdate 3, Update 3, Commit 3]"

section \<open>The result of a transfer in the component, and the receipt\<close>

text \<open>The object \<open>transactionDetails\<close> that both paths build on success.\<close>

record transactionDetails =
  td_document_no :: string
  td_lot_no :: string
  td_transfer_qty :: number
  td_uom :: string
  td_bin_from :: string
  td_bin_to :: string
  td_timestamp :: string
  td_should_print :: bool
  td_source_lot_status :: "string option"
  td_destination_lot_status :: "string option"

subsection \<open>The receipt\<close>

text \<open>
  \<open>formatLotStatus(sourceStatus, destStatus?)\<close>: a missing or empty destination status
  is falsy.
\<close>

definition formatLotStatus :: "string \<Rightarrow> string option \<Rightarrow> string" where
  "formatLotStatus sourceStatus destStatus =
     (if destStatus = None \<or> destStatus = Some [] \<or> Some sourceStatus = destStatus
      then (if sourceStatus = [] then ''N/A'' else sourceStatus)
      else sourceStatus @ '' - '' @ or_empty destStatus)"

text \<open>\<open>str.padEnd(n)\<close>, \<open>str.padStart(n)\<close> and \<open>str.padStart(n, c)\<close>.\<close>

definition padEnd :: "string \<Rightarrow> nat \<Rightarrow> string" where
  "padEnd str n = str @ replicate (n - length str) (CHR '' '')"

definition padStart_with :: "char \<Rightarrow> string \<Rightarrow> nat \<Rightarrow> string" where
  "padStart_with c str n = replicate (n - length str) c @ str"

definition padStart :: "string \<Rightarrow> nat \<Rightarrow> string" where
  "padStart str n = padStart_with (CHR '' '') str n"

text \<open>
  \<open>Number.prototype.toFixed(3)\<close> on an exact quantity: the sign, then the nearest
  multiple of \<open>0.001\<close> (the larger one of two) with three digits after the point. From
  \<open>10\<^sup>2\<^sup>1\<close> on JavaScript prints the number in exponent notation, which is not modelled:
  \<open>None\<close>.
\<close>

definition toFixed3 :: "number \<Rightarrow> string option" where
  "toFixed3 x =
     (if \<bar>x\<bar> \<ge> 10 ^ 21 then None
      else
        let n = nat \<lfloor>\<bar>x\<bar> * 1000 + 1 / 2\<rfloor>
        in Some ((if x < 0 then ''-'' else []) @ decimal (n div 1000) @ ''.'' @
                 [digit_char (n div 100 mod 10), digit_char (n div 10 mod 10),
                  digit_char (n mod 10)]))"

text \<open>The fields of \<open>new Date()\<close> that the receipt reads; \<open>getMonth\<close> counts from 0.\<close>

record Date =
  getFullYear :: nat
  getMonth :: nat
  getDate :: nat

definition formattedDate :: "Date \<Rightarrow> string" where
  "formattedDate now =
     padStart_with (CHR ''0'') (decimal (getDate now)) 2 @ ''-'' @
     padStart_with (CHR ''0'') (decimal (getMonth now + 1)) 2 @ ''-'' @
     drop 2 (decimal (getFullYear now))"

text \<open>\<open>v || '-'\<close> on a text field of the form.\<close>

definition or_dash :: "string option \<Rightarrow> string" where
  "or_dash v = (case v of None \<Rightarrow> ''-'' | Some s \<Rightarrow> if s = [] then ''-'' else s)"

definition rule_line :: string where
  "rule_line = ''======================================================================================''"

text \<open>
  \<open>printTransferReceipt\<close>: the lines of the report, and the content handed to
  \<open>printDirectly\<close>, which is the lines joined by line feeds. \<open>now\<close> is the clock's
  \<open>new Date()\<close>.
\<close>

definition reportLines ::
  "Date \<Rightarrow> transactionDetails \<Rightarrow> LotDetails \<Rightarrow> component \<Rightarrow> string list option" where
  "reportLines now td lot formValues =
     (case (toFixed3 (qtyOnHand lot), toFixed3 (td_transfer_qty td)) of
        (Some qtyOnHandText, Some qtyTransfer) \<Rightarrow>
          (let lotStatusDisplay = formatLotStatus (lotStatus lot) (td_destination_lot_status td)
           in Some
             [''Bin Transfer Report                    Date:'' @ formattedDate now,
              rule_line,
              ''Doc No         Item Key          Location Result'',
              rule_line,
              padEnd (td_document_no td) 15 @ padEnd (itemKey lot) 18 @
                padEnd (location lot) 9 @ ''Success'',
              rule_line,
              ''Bins/Lots from where material is transferred:'',
              ''LotNo           BinFrom          BinTo           Qtyonhand    QtyTransfer  Status'',
              rule_line,
              padEnd (td_lot_no td) 16 @ padEnd (td_bin_from td) 17 @
                padEnd (td_bin_to td) 16 @ padStart qtyOnHandText 12 @ '' '' @
                padStart qtyTransfer 11 @ ''  '' @ padEnd lotStatusDisplay 11,
              [],
              ''Remarks: '' @ or_dash (remarks formValues),
              ''Reference No: '' @ or_dash (referenced formValues)])
      | _ \<Rightarrow> None)"

fun join_lines :: "string list \<Rightarrow> string" where
  "join_lines [] = []"
| "join_lines [l] = l"
| "join_lines (l # ls) = l @ [CHR 0x0A] @ join_lines ls"

definition printTransferReceipt ::
  "Date \<Rightarrow> transactionDetails \<Rightarrow> LotDetails \<Rightarrow> component \<Rightarrow> string option" where
  "printTransferReceipt now td lot formValues =
     map_option join_lines (reportLines now td lot formValues)"

text \<open>The print date of the recorded test case, and the day after.\<close>

definition day_S :: "nat \<Rightarrow> Date" where
  "day_S d = \<lparr>getFullYear = 2026, getMonth = 1, getDate = d\<rparr>"

text \<open>The transaction details and the receipt of scenario S1, printed on 16 February 2026.\<close>

definition S1_details :: transactionDetails where
  "S1_details =
     \<lparr>td_document_no = ''BT-26112174'', td_lot_no = ''2600107-1'', td_transfer_qty = 500,
      td_uom = ''KG'', td_bin_from = ''K0802-4B'', td_bin_to = ''WHKON1'',
      td_timestamp = ''2026-02-16T08:36:03Z'', td_should_print = True,
      td_source_lot_status = Some ''P'', td_destination_lot_status = Some ''C''\<rparr>"

text \<open>
  Further stores for the scenarios. \<open>S1_db_audit\<close> is the store of S1 with more audit
  rows: besides the pending sales issue of 50, against the source key a receipt (type 8),
  a processed transfer (\<open>Processed = 'Y'\<close>), a transfer in progress of 12.5
  (\<open>Processed = 'P'\<close>), a row of type 1 and a row of type 21 without issued quantity,
  and a sales issue against the destination bin; in the QC table, against the source
  key, rows of type 2 (7), of type 4 and of type 16 (0.5, in progress).
  \<open>S1_db_fresh\<close> is the store of S1 before the lot has a row in the destination bin.
  \<open>S1_db_fine\<close> is the store of S1 with 975.0009 on hand in the source bin.
\<close>

definition audit_row :: "nat \<Rightarrow> char \<Rightarrow> string \<Rightarrow> number option \<Rightarrow> LotTransaction_row" where
  "audit_row ty p bin q =
     S1_pending\<lparr>BinNo := bin, TransactionType := ty, QtyIssued := q, Processed := p\<rparr>"

definition S1_db_audit :: db where
  "S1_db_audit =
     S1_db\<lparr>LotTransaction :=
              [S1_pending,
               audit_row 8 (CHR ''N'') ''K0802-4B'' (Some 11),
               audit_row 9 (CHR ''Y'') ''K0802-4B'' (Some 13),
               audit_row 9 (CHR ''P'') ''K0802-4B'' (Some (25 / 2)),
               audit_row 3 (CHR ''N'') ''WHKON1'' (Some 17),
               audit_row 1 (CHR ''N'') ''K0802-4B'' (Some 19),
               audit_row 21 (CHR ''P'') ''K0802-4B'' None],
            QCLotTransaction :=
              [audit_row 2 (CHR ''N'') ''K0802-4B'' (Some 7),
               audit_row 4 (CHR ''N'') ''K0802-4B'' (Some 23),
               audit_row 16 (CHR ''P'') ''K0802-4B'' (Some (1 / 2))]\<rparr>"

definition S1_db_fresh :: db where
  "S1_db_fresh = S1_db\<lparr>LotMaster := [S1_source]\<rparr>"

definition S1_db_fine :: db where
  "S1_db_fine = S1_db\<lparr>LotMaster := [S1_source\<lparr>QtyOnHand := 9750009 / 10000\<rparr>, S1_destination]\<rparr>"

section \<open>Theorems\<close>

lemma powi_less_iff: "(2 :: rat) powi a < 2 powi b \<longleftrightarrow> a < b"
proof
  assume "(2 :: rat) powi a < 2 powi b"
  show "a < b"
  proof (rule ccontr)
    assume "\<not> a < b"
    then have "(2 :: rat) powi b \<le> 2 powi a" by (intro power_int_increasing) auto
    with \<open>(2 :: rat) powi a < 2 powi b\<close> show False by simp
  qed
next
  assume "a < b" then show "(2 :: rat) powi a < 2 powi b"
    by (intro power_int_strict_increasing) auto
qed

lemma powi_le_iff: "(2 :: rat) powi a \<le> 2 powi b \<longleftrightarrow> a \<le> b"
  using powi_less_iff [of b a] by (auto simp: not_less [symmetric])

lemma powi_pos: "0 < (2 :: rat) powi a"
  by simp

lemma bitlen_pos: "0 < a \<Longrightarrow> 1 \<le> bitlen a"
  by (simp add: bitlen_alt_def)

lemma bitlen_powi:
  assumes "0 < a"
  shows "(2 :: rat) powi (bitlen a - 1) \<le> of_int a" and "of_int a < (2 :: rat) powi bitlen a"
proof -
  have p: "1 \<le> bitlen a" using assms by (rule bitlen_pos)
  from bitlen_bounds [OF assms] have "2 ^ nat (bitlen a - 1) \<le> a" "a < 2 ^ nat (bitlen a)"
    by simp_all
  then have "(of_int (2 ^ nat (bitlen a - 1)) :: rat) \<le> of_int a"
    "(of_int a :: rat) < of_int (2 ^ nat (bitlen a))"
    by (simp_all only: of_int_le_iff of_int_less_iff)
  then show "(2 :: rat) powi (bitlen a - 1) \<le> of_int a" "of_int a < (2 :: rat) powi bitlen a"
    using p by (simp_all add: power_int_nonneg_exp)
qed

lemma ilog2_bounds:
  assumes "0 < x"
  shows "2 powi ilog2 x \<le> x" and "x < 2 powi (ilog2 x + 1)"
proof -
  obtain a b where q: "quotient_of x = (a, b)" by (cases "quotient_of x")
  then have b: "0 < b" and x: "x = of_int a / of_int b"
    using quotient_of_denom_pos quotient_of_div by auto
  then have a: "0 < a" using assms by (simp add: zero_less_divide_iff)
  let ?d = "bitlen a - bitlen b"
  have ra: "0 < (of_int a :: rat)" and rb: "0 < (of_int b :: rat)" using a b by simp_all
  have "x < 2 powi bitlen a / of_int b"
    unfolding x using bitlen_powi(2) [OF a] rb by (simp add: divide_strict_right_mono)
  also have "\<dots> \<le> 2 powi bitlen a / 2 powi (bitlen b - 1)"
    using bitlen_powi(1) [OF b] rb by (intro divide_left_mono) (simp_all add: zero_less_mult_iff)
  also have "\<dots> = 2 powi (?d + 1)"
    by (simp add: power_int_diff [symmetric] algebra_simps)
  finally have up: "x < 2 powi (?d + 1)" .
  have "2 powi (?d - 1) = 2 powi (bitlen a - 1) / (2 :: rat) powi bitlen b"
    by (simp add: power_int_diff [symmetric] algebra_simps)
  also have "\<dots> \<le> of_int a / 2 powi bitlen b"
    using bitlen_powi(1) [OF a] by (simp add: divide_right_mono)
  also have "\<dots> < of_int a / of_int b"
    using bitlen_powi(2) [OF b] ra rb by (intro divide_strict_left_mono) simp_all
  finally have lo: "2 powi (?d - 1) < x" unfolding x .
  have e: "ilog2 x = (if 2 powi ?d \<le> x then ?d else ?d - 1)"
    by (simp add: ilog2_def q)
  show "2 powi ilog2 x \<le> x" using lo unfolding e by auto
  show "x < 2 powi (ilog2 x + 1)" using up unfolding e by auto
qed

lemma ilog2_unique:
  assumes "2 powi e \<le> x" and "x < 2 powi (e + 1)"
  shows "ilog2 x = e"
proof -
  have "0 < x" using assms(1) powi_pos [of e] by linarith
  note b = ilog2_bounds [OF this]
  from b(1) assms(2) have "(2 :: rat) powi ilog2 x < 2 powi (e + 1)" by linarith
  moreover from b(2) assms(1) have "(2 :: rat) powi e < 2 powi (ilog2 x + 1)" by linarith
  ultimately show ?thesis unfolding powi_less_iff by linarith
qed

lemma round_half_even_of_int: "round_half_even (of_int n) = n"
  by (simp add: round_half_even_def)

lemma round_half_even_mono: "x \<le> y \<Longrightarrow> round_half_even x \<le> round_half_even y"
proof -
  assume xy: "x \<le> y"
  have f: "\<lfloor>x\<rfloor> \<le> \<lfloor>y\<rfloor>" using xy by (rule floor_mono)
  have cx: "round_half_even x = \<lfloor>x\<rfloor> \<or> round_half_even x = \<lfloor>x\<rfloor> + 1"
    and cy: "round_half_even y = \<lfloor>y\<rfloor> \<or> round_half_even y = \<lfloor>y\<rfloor> + 1"
    by (auto simp: round_half_even_def Let_def)
  show ?thesis
  proof (cases "\<lfloor>x\<rfloor> = \<lfloor>y\<rfloor>")
    case False
    with f have "\<lfloor>x\<rfloor> + 1 \<le> \<lfloor>y\<rfloor>" by simp
    with cx cy show ?thesis by auto
  next
    case True
    then have "x - of_int \<lfloor>x\<rfloor> \<le> y - of_int \<lfloor>y\<rfloor>" using xy by simp
    then show ?thesis using True
      by (auto simp: round_half_even_def Let_def)
  qed
qed

lemma round_half_even_minus: "round_half_even (- y) = - round_half_even y"
proof (cases "y = of_int \<lfloor>y\<rfloor>")
  case True
  then obtain n where "y = of_int n" ..
  then have "- y = of_int (- n)" by simp
  then show ?thesis unfolding \<open>y = of_int n\<close>
    by (simp only: round_half_even_of_int)
next
  case False
  then have lt: "of_int \<lfloor>y\<rfloor> < y" using of_int_floor_le [of y] by linarith
  have "\<lfloor>- y\<rfloor> = - \<lfloor>y\<rfloor> - 1"
    using lt by (intro floor_unique) (auto, linarith+)
  then show ?thesis
    using lt by (auto simp: round_half_even_def Let_def)
qed

lemma quantum_minus: "quantum (- x) = quantum x"
  by (simp add: quantum_def)

lemma round_fin_minus: "round_fin (- x) = - round_fin x"
  by (simp add: round_fin_def quantum_minus round_half_even_minus)

lemma quantum_eq:
  assumes "x \<noteq> 0"
  shows "\<exists>k. quantum x = 2 powi k \<and> - 1074 \<le> k \<and> \<bar>x\<bar> < 2 powi (k + 53) \<and>
    (k = - 1074 \<or> 2 powi (k + 52) \<le> \<bar>x\<bar>)"
proof -
  let ?e = "ilog2 \<bar>x\<bar>" and ?k = "max (ilog2 \<bar>x\<bar>) (- 1022) - 52"
  have p: "0 < \<bar>x\<bar>" using assms by simp
  note b = ilog2_bounds [OF p]
  have "\<bar>x\<bar> < 2 powi (?k + 53)"
  proof -
    have "(2 :: rat) powi (?e + 1) \<le> 2 powi (?k + 53)" unfolding powi_le_iff by simp
    with b(2) show ?thesis by linarith
  qed
  moreover have "?k = - 1074 \<or> 2 powi (?k + 52) \<le> \<bar>x\<bar>"
  proof (cases "?e \<le> - 1022")
    case True then show ?thesis by simp
  next
    case False
    then have "?k + 52 = ?e" by simp
    with b(1) show ?thesis by simp
  qed
  moreover have "- 1074 \<le> ?k" by simp
  ultimately show ?thesis unfolding quantum_def by blast
qed

lemma representable_0: "representable 0"
  unfolding representable_def by (intro exI [of _ 0]) simp

lemma round_fin_representable: "representable (round_fin x)"
proof (cases "x = 0")
  case True then show ?thesis by (simp add: round_fin_def representable_0)
next
  case False
  then obtain k where k: "quantum x = 2 powi k" "- 1074 \<le> k" "\<bar>x\<bar> < 2 powi (k + 53)"
    using quantum_eq by blast
  define y where "y = x / 2 powi k"
  let ?n = "round_half_even y"
  have r: "round_fin x = of_int ?n * 2 powi k" using False by (simp add: round_fin_def k y_def)
  have "\<bar>y\<bar> < 2 ^ 53"
  proof -
    have "\<bar>y\<bar> = \<bar>x\<bar> / 2 powi k" by (simp add: y_def)
    also have "\<dots> < 2 powi (k + 53) / 2 powi k" using k(3) by (simp add: divide_strict_right_mono)
    also have "\<dots> = 2 ^ 53" by (simp add: power_int_add)
    finally show ?thesis .
  qed
  then have "y \<le> of_int (2 ^ 53)" "of_int (- (2 ^ 53)) \<le> y" by simp_all
  then have "?n \<le> 2 ^ 53" "- (2 ^ 53) \<le> ?n"
    using round_half_even_mono [of y "of_int (2 ^ 53)"]
      round_half_even_mono [of "of_int (- (2 ^ 53))" y]
    by (simp_all only: round_half_even_of_int)
  then consider "\<bar>?n\<bar> < 2 ^ 53" | "?n = 2 ^ 53" | "?n = - (2 ^ 53)" by linarith
  then show ?thesis
  proof cases
    case 1
    with r k(2) show ?thesis unfolding representable_def by blast
  next
    case 2
    have "round_fin x = of_int (2 ^ 52) * 2 powi (k + 1)"
      unfolding r 2 by (simp add: power_int_add)
    moreover have "\<bar>2 ^ 52 :: int\<bar> < 2 ^ 53" "- 1074 \<le> k + 1" using k(2) by simp_all
    ultimately show ?thesis unfolding representable_def by blast
  next
    case 3
    have "round_fin x = of_int (- (2 ^ 52)) * 2 powi (k + 1)"
      unfolding r 3 by (simp add: power_int_add)
    moreover have "\<bar>- (2 ^ 52) :: int\<bar> < 2 ^ 53" "- 1074 \<le> k + 1" using k(2) by simp_all
    ultimately show ?thesis unfolding representable_def by blast
  qed
qed

lemma round_fin_exact:
  assumes "representable x"
  shows "round_fin x = x"
proof (cases "x = 0")
  case True then show ?thesis by (simp add: round_fin_def)
next
  case False
  from assms obtain m j where x: "x = of_int m * 2 powi j" and m: "\<bar>m\<bar> < 2 ^ 53" and j: "- 1074 \<le> j"
    unfolding representable_def by blast
  from False obtain k where k: "quantum x = 2 powi k" "k = - 1074 \<or> 2 powi (k + 52) \<le> \<bar>x\<bar>"
    using quantum_eq by blast
  have kj: "k \<le> j"
  proof (cases "k = - 1074")
    case True with j show ?thesis by simp
  next
    case False
    with k(2) have "2 powi (k + 52) \<le> \<bar>x\<bar>" by simp
    also have "\<bar>x\<bar> = of_int \<bar>m\<bar> * 2 powi j" unfolding x by (simp add: abs_mult)
    also have "\<dots> < 2 ^ 53 * 2 powi j"
    proof -
      have "(of_int \<bar>m\<bar> :: rat) < of_int (2 ^ 53)" using m by (simp only: of_int_less_iff)
      then show ?thesis by (simp add: mult_strict_right_mono)
    qed
    also have "\<dots> = 2 powi (53 + j)" by (simp add: power_int_add)
    finally have "k + 52 < 53 + j" unfolding powi_less_iff .
    then show ?thesis by simp
  qed
  have "x / 2 powi k = of_int m * 2 powi (j - k)" unfolding x by (simp add: power_int_diff)
  also have "\<dots> = of_int (m * 2 ^ nat (j - k))" using kj by (simp add: power_int_nonneg_exp)
  finally have i: "x / 2 powi k = of_int (m * 2 ^ nat (j - k))" .
  have "round_fin x = of_int (round_half_even (x / 2 powi k)) * 2 powi k"
    using False by (simp add: round_fin_def k(1))
  also have "\<dots> = (x / 2 powi k) * 2 powi k"
    unfolding i round_half_even_of_int ..
  also have "\<dots> = x" by simp
  finally show ?thesis .
qed

lemma representable_diff_aux:
  assumes x: "x = of_int m * 2 powi i" and y: "y = of_int n * 2 powi j"
    and m: "\<bar>m\<bar> < 2 ^ 53" and i: "- 1074 \<le> i" and ij: "i \<le> j"
    and le: "\<bar>x - y\<bar> \<le> \<bar>x\<bar>"
  shows "representable (x - y)"
proof -
  let ?M = "m - n * 2 ^ nat (j - i)"
  have "y = of_int (n * 2 ^ nat (j - i)) * 2 powi i"
  proof -
    have "(2 :: rat) powi j = 2 powi (j - i) * 2 powi i" by (simp add: power_int_add [symmetric])
    also have "(2 :: rat) powi (j - i) = 2 ^ nat (j - i)" using ij by (simp add: power_int_nonneg_exp)
    finally show ?thesis unfolding y by simp
  qed
  then have d: "x - y = of_int ?M * 2 powi i" unfolding x by (simp add: algebra_simps)
  have "of_int \<bar>?M\<bar> * (2 :: rat) powi i = \<bar>x - y\<bar>" unfolding d by (simp add: abs_mult)
  also have "\<dots> \<le> \<bar>x\<bar>" by (rule le)
  also have "\<dots> = of_int \<bar>m\<bar> * 2 powi i" unfolding x by (simp add: abs_mult)
  finally have "(of_int \<bar>?M\<bar> :: rat) \<le> of_int \<bar>m\<bar>" by simp
  then have "\<bar>?M\<bar> \<le> \<bar>m\<bar>" by (simp only: of_int_le_iff)
  with m have "\<bar>?M\<bar> < 2 ^ 53" by linarith
  with d i show ?thesis unfolding representable_def by blast
qed

lemma representable_minus: "representable x \<Longrightarrow> representable (- x)"
proof -
  assume "representable x"
  then obtain m e where "x = of_int m * 2 powi e" "\<bar>m\<bar> < 2 ^ 53" "- 1074 \<le> e"
    unfolding representable_def by blast
  then have "- x = of_int (- m) * 2 powi e" "\<bar>- m\<bar> < 2 ^ 53" "- 1074 \<le> e" by simp_all
  then show ?thesis unfolding representable_def by blast
qed

lemma representable_diff:
  assumes "representable x" and "representable y" and "y / 2 \<le> x" and "x \<le> 2 * y"
  shows "representable (x - y)"
proof -
  from assms(1) obtain m i where x: "x = of_int m * 2 powi i" "\<bar>m\<bar> < 2 ^ 53" "- 1074 \<le> i"
    unfolding representable_def by blast
  from assms(2) obtain n j where y: "y = of_int n * 2 powi j" "\<bar>n\<bar> < 2 ^ 53" "- 1074 \<le> j"
    unfolding representable_def by blast
  have b: "\<bar>x - y\<bar> \<le> \<bar>x\<bar>" "\<bar>y - x\<bar> \<le> \<bar>y\<bar>" using assms(3,4) by linarith+
  show ?thesis
  proof (cases "i \<le> j")
    case True
    from representable_diff_aux [OF x(1) y(1) x(2,3) True b(1)] show ?thesis .
  next
    case False
    then have "j \<le> i" by simp
    from representable_diff_aux [OF y(1) x(1) y(2,3) this b(2)] have "representable (y - x)" .
    then have "representable (- (y - x))" by (rule representable_minus)
    then show ?thesis by simp
  qed
qed

lemma literal_0_001: "round_fin (1 / 1000) = 1152921504606847 / 2 ^ 60"
  by code_simp

lemma round_fin_at:
  assumes "2 powi e \<le> x" and "x < 2 powi (e + 1)" and "- 1022 \<le> e"
  shows "round_fin x = of_int (round_half_even (x / 2 powi (e - 52))) * 2 powi (e - 52)"
proof -
  have p: "0 < x" using assms(1) powi_pos [of e] by linarith
  then have "ilog2 \<bar>x\<bar> = e" using ilog2_unique [OF assms(1,2)] by simp
  then have "quantum x = 2 powi (e - 52)" using assms(3) by (simp add: quantum_def)
  then show ?thesis using p by (simp add: round_fin_def)
qed

lemma round_fin_ge_0_001:
  assumes "1 / 1000 \<le> x"
  shows "round_fin (1 / 1000) \<le> round_fin x"
proof -
  have p: "0 < x" using assms by simp
  define e where "e = ilog2 x"
  note b = ilog2_bounds [OF p, folded e_def]
  have "(2 :: rat) powi (- 10) < 1 / 1000" by (simp add: power_int_minus_divide)
  with assms b(2) have "(2 :: rat) powi (- 10) < 2 powi (e + 1)" by linarith
  then have e: "- 10 \<le> e" unfolding powi_less_iff by simp
  then have r: "round_fin x = of_int (round_half_even (x / 2 powi (e - 52))) * 2 powi (e - 52)"
    using round_fin_at [OF b] by simp
  show ?thesis
  proof (cases "e = - 10")
    case True
    have "(1 / 1000) / 2 powi (- 62) \<le> x / 2 powi (- 62)"
      using assms by (simp add: divide_right_mono)
    from round_half_even_mono [OF this]
    have "round_half_even ((1 / 1000) / 2 powi (- 62)) \<le> round_half_even (x / 2 powi (- 62))" .
    moreover have "round_half_even ((1 / 1000) / 2 powi (- 62)) = 4611686018427388"
      by code_simp
    ultimately have "(of_int 4611686018427388 :: rat) \<le> of_int (round_half_even (x / 2 powi (- 62)))"
      by (simp only: of_int_le_iff)
    then have "of_int 4611686018427388 * 2 powi (- 62)
        \<le> of_int (round_half_even (x / 2 powi (- 62))) * (2 :: rat) powi (- 62)"
      by (intro mult_right_mono) simp_all
    moreover have "of_int 4611686018427388 * (2 :: rat) powi (- 62) = round_fin (1 / 1000)"
      unfolding literal_0_001 by (simp add: power_int_minus_divide)
    ultimately show ?thesis unfolding r True by simp
  next
    case False
    with e have e9: "- 9 \<le> e" by simp
    have "x / 2 powi (e - 52) \<ge> 2 powi e / 2 powi (e - 52)"
      using b(1) by (simp add: divide_right_mono)
    moreover have "2 powi e / (2 :: rat) powi (e - 52) = of_int (2 ^ 52)"
      by (simp add: power_int_diff)
    ultimately have "of_int (2 ^ 52) \<le> x / 2 powi (e - 52)" by simp
    from round_half_even_mono [OF this]
    have "2 ^ 52 \<le> round_half_even (x / 2 powi (e - 52))"
      by (simp only: round_half_even_of_int)
    then have "(of_int (2 ^ 52) :: rat) \<le> of_int (round_half_even (x / 2 powi (e - 52)))"
      by (simp only: of_int_le_iff)
    then have "of_int (2 ^ 52) * 2 powi (e - 52)
        \<le> of_int (round_half_even (x / 2 powi (e - 52))) * (2 :: rat) powi (e - 52)"
      by (intro mult_right_mono) simp_all
    moreover have "of_int (2 ^ 52) * (2 :: rat) powi (e - 52) = 2 powi e"
      by (simp add: power_int_diff)
    moreover have "(2 :: rat) powi (- 9) \<le> 2 powi e" using e9 unfolding powi_le_iff .
    moreover have "round_fin (1 / 1000) \<le> (2 :: rat) powi (- 9)"
      unfolding literal_0_001 by (simp add: power_int_minus_divide)
    ultimately show ?thesis unfolding r by linarith
  qed
qed

lemma round_fin_small:
  assumes "\<bar>round_fin x\<bar> < round_fin (1 / 1000)"
  shows "\<bar>x\<bar> < 1 / 1000"
proof (rule ccontr)
  assume "\<not> \<bar>x\<bar> < 1 / 1000"
  then consider "1 / 1000 \<le> x" | "1 / 1000 \<le> - x" by linarith
  then show False
  proof cases
    case 1
    from round_fin_ge_0_001 [OF this] assms show False by linarith
  next
    case 2
    from round_fin_ge_0_001 [OF this] assms show False
      unfolding round_fin_minus by linarith
  qed
qed

lemma binary64_Num: "binary64 x = Num r \<longleftrightarrow> round_fin x = r \<and> \<bar>r\<bar> < 2 ^ 1024"
  by (auto simp: binary64_def Let_def abs_less_iff not_le)

lemma is_double_iff: "is_double x \<longleftrightarrow> representable x \<and> \<bar>x\<bar> < 2 ^ 1024"
proof
  assume "is_double x"
  then have e: "round_fin x = x" and b: "\<bar>x\<bar> < 2 ^ 1024"
    unfolding is_double_def binary64_Num by blast+
  from round_fin_representable [of x] have "representable x" unfolding e .
  then show "representable x \<and> \<bar>x\<bar> < 2 ^ 1024" using b ..
next
  assume a: "representable x \<and> \<bar>x\<bar> < 2 ^ 1024"
  then have "round_fin x = x" by (simp only: round_fin_exact)
  with a show "is_double x"
    unfolding is_double_def binary64_Num by blast
qed

lemma binary64_is_double: "binary64 x = Num r \<Longrightarrow> is_double r"
  unfolding binary64_Num is_double_iff using round_fin_representable [of x] by blast

lemma lit_0_001: "lit (1 / 1000) = Num (round_fin (1 / 1000))"
  unfolding lit_def binary64_Num literal_0_001 by simp

lemma close_imp:
  assumes "js_less (Math_abs (js_minus (Num a) (Num b))) (lit (1 / 1000))"
  shows "\<bar>a - b\<bar> < 1 / 1000"
proof (cases "binary64 (a - b)")
  case (Num r)
  then have r: "r = round_fin (a - b)" unfolding binary64_Num by blast
  from assms Num have "\<bar>r\<bar> < round_fin (1 / 1000)"
    by (simp add: js_minus_def lit_0_001)
  then show ?thesis unfolding r by (rule round_fin_small)
qed (use assms in \<open>simp_all add: js_minus_def lit_0_001\<close>)

lemma close_exact:
  assumes "representable (a - b)" and "\<bar>a - b\<bar> < 1 / 1000"
  shows "js_less (Math_abs (js_minus (Num a) (Num b))) (lit (1 / 1000))"
proof -
  have "(1 / 1000 :: rat) < 2 ^ 1024" by simp
  with assms(2) have "\<bar>a - b\<bar> < 2 ^ 1024" by linarith
  moreover from assms(1) have "round_fin (a - b) = a - b" by (rule round_fin_exact)
  ultimately have "binary64 (a - b) = Num (a - b)"
    unfolding binary64_Num by blast
  moreover have "(1 / 1000 :: rat) < round_fin (1 / 1000)" unfolding literal_0_001 by simp
  ultimately show ?thesis using assms(2) by (simp add: js_minus_def lit_0_001)
qed

lemma close_if:
  assumes "is_double a" and "is_double b" and "2 / 1000 \<le> b" and "\<bar>a - b\<bar> < 1 / 1000"
  shows "js_less (Math_abs (js_minus (Num a) (Num b))) (lit (1 / 1000))"
proof -
  have "b / 2 \<le> a" "a \<le> 2 * b" using assms(3,4) by linarith+
  with assms(1,2) have "representable (a - b)"
    unfolding is_double_iff by (intro representable_diff) simp_all
  then show ?thesis using assms(4) by (rule close_exact)
qed

lemma greater_not_less:
  "js_greater (Math_abs x) y \<Longrightarrow> \<not> js_less (Math_abs x) y"
  by (cases x; cases y) (simp_all add: js_greater_def)

lemma round_half_even_near: "\<bar>of_int (round_half_even y) - y\<bar> \<le> 1 / 2"
proof -
  define f where "f = \<lfloor>y\<rfloor>"
  define r where "r = y - of_int f"
  have b: "0 \<le> r" "r < 1" unfolding r_def f_def by linarith+
  have y: "y = of_int f + r" unfolding r_def by simp
  have d: "round_half_even y =
      (if r < 1 / 2 then f else if 1 / 2 < r then f + 1 else if even f then f else f + 1)"
    unfolding round_half_even_def Let_def f_def r_def ..
  show ?thesis unfolding d using b by (auto simp: y abs_if)
qed

lemma round_fin_error:
  assumes "\<bar>x\<bar> \<le> 2 powi k" and "- 1022 \<le> k"
  shows "\<bar>round_fin x - x\<bar> \<le> 2 powi (k - 53)"
proof (cases "x = 0")
  case True then show ?thesis by (simp add: round_fin_def)
next
  case False
  then have p: "0 < \<bar>x\<bar>" by simp
  let ?j = "max (ilog2 \<bar>x\<bar>) (- 1022) - 52"
  have "(2 :: rat) powi ilog2 \<bar>x\<bar> \<le> 2 powi k" using ilog2_bounds(1) [OF p] assms(1) by linarith
  then have "ilog2 \<bar>x\<bar> \<le> k" unfolding powi_le_iff .
  with assms(2) have j: "?j \<le> k - 52" by simp
  have q: "quantum x = 2 powi ?j" by (simp add: quantum_def)
  have "round_fin x - x = (of_int (round_half_even (x / 2 powi ?j)) - x / 2 powi ?j) * 2 powi ?j"
    using False by (simp add: round_fin_def q algebra_simps)
  then have "\<bar>round_fin x - x\<bar> = \<bar>of_int (round_half_even (x / 2 powi ?j)) - x / 2 powi ?j\<bar> * 2 powi ?j"
    by (simp add: abs_mult)
  also have "\<dots> \<le> (1 / 2) * 2 powi ?j"
    by (intro mult_right_mono round_half_even_near) simp
  also have "\<dots> \<le> (1 / 2) * 2 powi (k - 52)"
    using j by (intro mult_left_mono) (simp_all add: powi_le_iff)
  also have "\<dots> = 2 powi (k - 53)"
  proof -
    have "(2 :: rat) powi (k - 52) = 2 powi (k - 53 + 1)" by simp
    also have "\<dots> = 2 powi (k - 53) * 2" by (subst power_int_add) simp_all
    finally show ?thesis by simp
  qed
  finally show ?thesis .
qed

lemma js_plus_near:
  assumes "\<bar>a + b\<bar> \<le> 2 ^ 21"
  shows "\<exists>r. js_plus (Num a) (Num b) = Num r \<and> \<bar>r - (a + b)\<bar> \<le> 1 / 2 ^ 32"
proof -
  have "\<bar>a + b\<bar> \<le> 2 powi 21" using assms by simp
  from round_fin_error [OF this] have e: "\<bar>round_fin (a + b) - (a + b)\<bar> \<le> 1 / 2 ^ 32"
    by (simp add: power_int_minus_divide)
  have "\<bar>round_fin (a + b)\<bar> \<le> \<bar>a + b\<bar> + 1 / 2 ^ 32" using e by linarith
  also have "\<dots> \<le> 2 ^ 21 + 1 / 2 ^ 32" using assms by linarith
  also have "\<dots> < (2 :: rat) ^ 1024" by simp
  finally have "binary64 (a + b) = Num (round_fin (a + b))" unfolding binary64_Num by blast
  with e show ?thesis by simp
qed

lemma foldl_near:
  assumes "sum_list (map abs qs) \<le> 2 ^ 20" and "length qs \<le> 2 ^ 10"
  shows "\<exists>s. foldl (\<lambda>sum q. js_plus sum (Num q)) (Num 0) qs = Num s \<and>
    \<bar>s - sum_list qs\<bar> \<le> of_nat (length qs) / 2 ^ 32"
  using assms
proof (induction qs rule: rev_induct)
  case Nil
  then show ?case by simp
next
  case (snoc q qs)
  from snoc.prems have a: "sum_list (map abs qs) + \<bar>q\<bar> \<le> 2 ^ 20" and l: "length qs < 2 ^ 10"
    by simp_all
  have "0 \<le> \<bar>q\<bar>" by simp
  with a have "sum_list (map abs qs) \<le> 2 ^ 20" by linarith
  with snoc.IH l obtain s where s: "foldl (\<lambda>sum q. js_plus sum (Num q)) (Num 0) qs = Num s"
    and e: "\<bar>s - sum_list qs\<bar> \<le> of_nat (length qs) / 2 ^ 32"
    by auto
  have "(of_nat (length qs) :: rat) \<le> 2 ^ 10" using l
    by (metis less_imp_le of_nat_le_iff of_nat_numeral of_nat_power)
  then have n: "(of_nat (length qs) :: rat) / 2 ^ 32 \<le> 1" by simp
  have "\<bar>sum_list qs\<bar> \<le> sum_list (map abs qs)" by (rule sum_list_abs)
  moreover have "(2 :: rat) ^ 21 = 2 * 2 ^ 20" "(1 :: rat) \<le> 2 ^ 20" by simp_all
  ultimately have "\<bar>s + q\<bar> \<le> 2 ^ 21" using a e n by linarith
  from js_plus_near [OF this] obtain r where r: "js_plus (Num s) (Num q) = Num r"
    and er: "\<bar>r - (s + q)\<bar> \<le> 1 / 2 ^ 32"
    by blast
  have "of_nat (length (qs @ [q])) / 2 ^ 32 = of_nat (length qs) / 2 ^ 32 + 1 / (2 :: rat) ^ 32"
    by (simp add: add_divide_distrib)
  moreover have "r - sum_list (qs @ [q]) = (r - (s + q)) + (s - sum_list qs)" by simp
  ultimately have "\<bar>r - sum_list (qs @ [q])\<bar> \<le> of_nat (length (qs @ [q])) / 2 ^ 32"
    using e er by linarith
  with r s show ?case by simp
qed

lemma Num_0_is_double: "is_double 0"
  unfolding is_double_iff by (simp add: representable_0)

lemma js_plus_Num:
  "js_plus x (Num q) = Num s \<Longrightarrow> \<exists>p. x = Num p \<and> binary64 (p + q) = Num s"
  by (cases x) simp_all

lemma foldl_is_double:
  "foldl (\<lambda>sum t. js_plus sum (Num (f t))) (Num 0) xs = Num s \<Longrightarrow> is_double s"
proof (induction xs arbitrary: s rule: rev_induct)
  case Nil
  then show ?case using Num_0_is_double by simp
next
  case (snoc x xs)
  then have "js_plus (foldl (\<lambda>sum t. js_plus sum (Num (f t))) (Num 0) xs) (Num (f x)) = Num s"
    by simp
  from js_plus_Num [OF this] show ?case using binary64_is_double by blast
qed

lemma selectedTotalQty_is_double: "selectedTotalQty m = Num s \<Longrightarrow> is_double s"
  unfolding selectedTotalQty_def by (rule foldl_is_double)

lemma selectedTotalQty_near:
  assumes "(\<Sum>t\<leftarrow>selectedRows m. \<bar>qty t\<bar>) \<le> 2 ^ 20" and "length (selectedRows m) \<le> 2 ^ 10"
  shows "\<exists>s. selectedTotalQty m = Num s \<and> \<bar>s - (\<Sum>t\<leftarrow>selectedRows m. qty t)\<bar> \<le> 1 / 2 ^ 22"
proof -
  have f: "selectedTotalQty m = foldl (\<lambda>sum q. js_plus sum (Num q)) (Num 0) (map qty (selectedRows m))"
    by (simp add: selectedTotalQty_def foldl_map)
  have "sum_list (map abs (map qty (selectedRows m))) \<le> 2 ^ 20" using assms(1) by (simp add: comp_def)
  moreover have "length (map qty (selectedRows m)) \<le> 2 ^ 10" using assms(2) by simp
  ultimately obtain s where s: "selectedTotalQty m = Num s"
    and e: "\<bar>s - sum_list (map qty (selectedRows m))\<bar> \<le> of_nat (length (map qty (selectedRows m))) / 2 ^ 32"
    unfolding f using foldl_near by blast
  have "(of_nat (length (selectedRows m)) :: rat) \<le> 2 ^ 10" using assms(2)
    by (metis of_nat_le_iff of_nat_numeral of_nat_power)
  then have "(of_nat (length (map qty (selectedRows m))) :: rat) / 2 ^ 32 \<le> 1 / 2 ^ 22" by simp
  with e have "\<bar>s - sum_list (map qty (selectedRows m))\<bar> \<le> 1 / 2 ^ 22" by linarith
  with s show ?thesis by blast
qed

lemma selectedCount_pos_iff: "selectedCount m > 0 \<longleftrightarrow> selectedIds m \<noteq> {||}"
  by (simp add: selectedCount_def fcard_0_eq zero_less_iff_neq_zero)

lemma matched_imp:
  assumes "js_less (Math_abs (js_minus tot (Num t))) (lit (1 / 1000))"
  shows "\<exists>s. tot = Num s \<and> \<bar>s - t\<bar> < 1 / 1000"
proof (cases tot)
  case (Num s)
  with assms have "js_less (Math_abs (js_minus (Num s) (Num t))) (lit (1 / 1000))" by simp
  then have "\<bar>s - t\<bar> < 1 / 1000" by (rule close_imp)
  with Num show ?thesis by blast
qed (use assms in \<open>simp_all add: js_minus_def lit_0_001\<close>)

lemma canConfirm_iff:
  "canConfirm m \<longleftrightarrow>
     selectedIds m \<noteq> {||} \<and>
     (0 < targetQty m \<longrightarrow>
        js_less (Math_abs (js_minus (selectedTotalQty m) (Num (targetQty m)))) (lit (1 / 1000)))"
  unfolding canConfirm_def isQtyMatched_def Let_def selectedCount_pos_iff
  by (cases "targetQty m \<le> 0") auto

lemma canConfirm_imp:
  assumes "0 < targetQty m" and "canConfirm m"
  shows "selectedIds m \<noteq> {||}" and "\<exists>s. selectedTotalQty m = Num s \<and> \<bar>s - targetQty m\<bar> < 1 / 1000"
  using assms matched_imp unfolding canConfirm_iff by blast+

lemma canConfirm_if:
  assumes "is_double (targetQty m)" and "2 / 1000 \<le> targetQty m" and "selectedIds m \<noteq> {||}"
    and "selectedTotalQty m = Num s" and "\<bar>s - targetQty m\<bar> < 1 / 1000"
  shows "canConfirm m"
proof -
  have "is_double s" using assms(4) by (rule selectedTotalQty_is_double)
  from close_if [OF this assms(1,2,5)] assms(3,4) show ?thesis
    unfolding canConfirm_iff by simp
qed

lemma is_double_of_int: "\<bar>n\<bar> < 2 ^ 53 \<Longrightarrow> is_double (of_int n)"
proof -
  assume n: "\<bar>n\<bar> < 2 ^ 53"
  then have "(of_int \<bar>n\<bar> :: rat) < of_int (2 ^ 53)" by (simp only: of_int_less_iff)
  also have "\<dots> < 2 ^ 1024" by simp
  finally have "\<bar>of_int n :: rat\<bar> < 2 ^ 1024" by simp
  moreover have "(of_int n :: rat) = of_int n * 2 powi 0" by simp
  then have "representable (of_int n)" using n unfolding representable_def
    by (intro exI [of _ n] exI [of _ 0] conjI) simp_all
  ultimately show ?thesis unfolding is_double_iff by blast
qed

lemma binary64_of_int: "\<bar>n\<bar> < 2 ^ 53 \<Longrightarrow> binary64 (of_int n) = Num (of_int n)"
  using is_double_of_int unfolding is_double_def .

lemma binary64_values:
  "binary64 30 = Num 30" "binary64 60 = Num 60" "binary64 50 = Num 50" "binary64 20 = Num 20"
  "binary64 80 = Num 80"
  using binary64_of_int [of 30] binary64_of_int [of 60] binary64_of_int [of 50]
    binary64_of_int [of 20] binary64_of_int [of 80]
  by simp_all

lemma binary64_eq: "\<bar>round_fin x\<bar> < 2 ^ 1024 \<Longrightarrow> binary64 x = Num (round_fin x)"
  unfolding binary64_Num by blast

lemma is_double_round_fin: "\<bar>round_fin x\<bar> < 2 ^ 1024 \<Longrightarrow> is_double (round_fin x)"
  using binary64_eq binary64_is_double by blast

lemma close_iff:
  assumes "\<bar>round_fin (a - b)\<bar> < 2 ^ 1024"
  shows "js_less (Math_abs (js_minus (Num a) (Num b))) (lit (1 / 1000))
     \<longleftrightarrow> \<bar>round_fin (a - b)\<bar> < round_fin (1 / 1000)"
  using binary64_eq [OF assms] by (simp add: js_minus_def lit_0_001)

lemma is_double_bounded:
  assumes "\<bar>round_fin x\<bar> \<le> b" and "b < 2 ^ 1024"
  shows "is_double (round_fin x)"
  using assms by (intro is_double_round_fin) linarith

lemma js_plus_0: "is_double q \<Longrightarrow> js_plus (Num 0) (Num q) = Num q"
  by (simp add: is_double_def)

lemma one_row_modal_total:
  assumes "is_double (round_fin q)"
  shows "selectedTotalQty (one_row_modal q t) = Num (round_fin q)"
  using js_plus_0 [OF assms]
  by (simp add: selectedTotalQty_def selectedRows_def one_row_modal_def pending_row_def)

lemma one_row_modal_fields:
  "selectedIds (one_row_modal q t) \<noteq> {||}" "targetQty (one_row_modal q t) = t"
  by (simp_all add: one_row_modal_def)

lemma double_40_001:
  "is_double (round_fin (40001 / 1000))" "\<bar>round_fin (40001 / 1000) - 40\<bar> < 1 / 1000"
proof -
  have "\<bar>round_fin (40001 / 1000)\<bar> \<le> 41" by code_simp
  then show "is_double (round_fin (40001 / 1000))" by (rule is_double_bounded) simp
  show "\<bar>round_fin (40001 / 1000) - 40\<bar> < 1 / 1000" by code_simp
qed

lemma double_tiny:
  "is_double (round_fin (3 / 10000))"
  "\<bar>round_fin (3 / 10000) - round_fin (13 / 10000)\<bar> < 1 / 1000"
  "0 < round_fin (13 / 10000)"
  "round_fin (round_fin (3 / 10000) - round_fin (13 / 10000)) = - round_fin (1 / 1000)"
proof -
  have "\<bar>round_fin (3 / 10000)\<bar> \<le> 1" by code_simp
  then show "is_double (round_fin (3 / 10000))" by (rule is_double_bounded) simp
  show "\<bar>round_fin (3 / 10000) - round_fin (13 / 10000)\<bar> < 1 / 1000" by code_simp
  show "0 < round_fin (13 / 10000)" by code_simp
  show "round_fin (round_fin (3 / 10000) - round_fin (13 / 10000)) = - round_fin (1 / 1000)"
    by code_simp
qed

lemma double_49_999:
  "is_double (round_fin (49999 / 1000))" "\<bar>round_fin (49999 / 1000) - 50\<bar> < 1 / 1000"
  "round_fin (49999 / 1000) \<le> 50" "50 - round_fin (49999 / 1000) < 1 / 1000"
proof -
  have "\<bar>round_fin (49999 / 1000)\<bar> \<le> 50" by code_simp
  then show "is_double (round_fin (49999 / 1000))" by (rule is_double_bounded) simp
  show "\<bar>round_fin (49999 / 1000) - 50\<bar> < 1 / 1000" by code_simp
  show "round_fin (49999 / 1000) \<le> 50" by code_simp
  show "50 - round_fin (49999 / 1000) < 1 / 1000" by code_simp
qed

lemma S5_modal_total: "selectedTotalQty (S5_modal t) = Num 60"
  by (simp add: selectedTotalQty_def selectedRows_def S5_modal_def S5_rows_def binary64_values)

lemma S5_modal_nonempty: "selectedIds (S5_modal t) \<noteq> {||}" "targetQty (S5_modal t) = t"
  by (simp_all add: S5_modal_def)

lemma S5_modal_rows:
  "(\<Sum>t\<leftarrow>selectedRows (S5_modal t). \<bar>qty t\<bar>) = 60" "length (selectedRows (S5_modal t)) = 2"
  "(\<Sum>t\<leftarrow>selectedRows (S5_modal t). qty t) = 60"
  by (simp_all add: selectedRows_def S5_modal_def S5_rows_def)

text \<open>
  Claim C10, as stated, fails at the edge of the tolerance, where the binary rounding of
  the code decides. Read on the decimals: for the target 40 and one ticked row of
  \<open>40.001\<close> the quantities differ by exactly \<open>0.001\<close>, which is not within the
  tolerance, yet Confirm is enabled (the double nearest to \<open>40.001\<close> lies below it).
  Read on the doubles: for the target \<open>0.0013\<close> and one ticked row of \<open>0.0003\<close> the
  selected total is the row's quantity and differs from the target by less than
  \<open>0.001\<close>, yet Confirm is disabled (the difference rounds to the double \<open>0.001\<close>).
\<close>

theorem C10_counterexample:
  "\<not> \<bar>(40001 / 1000 :: rat) - 40\<bar> < 1 / 1000 \<and>
   canConfirm (one_row_modal (40001 / 1000) 40) \<and>
   selectedTotalQty (one_row_modal (3 / 10000) (round_fin (13 / 10000)))
     = Num (round_fin (3 / 10000)) \<and>
   \<bar>round_fin (3 / 10000) - round_fin (13 / 10000)\<bar> < 1 / 1000 \<and>
   \<not> canConfirm (one_row_modal (3 / 10000) (round_fin (13 / 10000)))"
proof -
  have 1: "canConfirm (one_row_modal (40001 / 1000) 40)"
  proof (rule canConfirm_if)
    show "selectedTotalQty (one_row_modal (40001 / 1000) 40) = Num (round_fin (40001 / 1000))"
      using double_40_001(1) by (rule one_row_modal_total)
    show "is_double (targetQty (one_row_modal (40001 / 1000) 40))"
      using is_double_of_int [of 40] by (simp add: one_row_modal_fields)
    show "\<bar>round_fin (40001 / 1000) - targetQty (one_row_modal (40001 / 1000) 40)\<bar> < 1 / 1000"
      using double_40_001(2) by (simp add: one_row_modal_fields)
  qed (simp_all add: one_row_modal_fields)
  have 0: "selectedTotalQty (one_row_modal (3 / 10000) (round_fin (13 / 10000)))
      = Num (round_fin (3 / 10000))"
    using double_tiny(1) by (rule one_row_modal_total)
  have l: "\<bar>round_fin (round_fin (3 / 10000) - round_fin (13 / 10000))\<bar> < 2 ^ 1024"
    unfolding double_tiny(4) literal_0_001 by simp
  have 2: "\<not> canConfirm (one_row_modal (3 / 10000) (round_fin (13 / 10000)))"
    unfolding canConfirm_iff one_row_modal_fields 0 close_iff [OF l] double_tiny(4)
    using double_tiny(3) by (simp add: literal_0_001)
  show ?thesis
    using 0 1 2 double_tiny(2) by simp
qed

text \<open>
  Claim C10, amended. When the target quantity is zero or negative, Confirm is enabled
  exactly for the non-empty selections, whatever they total. When the target \<open>t\<close> is
  positive, the selected total is the running sum \<open>s\<close> of the selected quantities as the
  code computes it in double precision, and: if Confirm is enabled then the selection is
  non-empty and \<open>s\<close> is finite with \<open>|s - t| < 0.001\<close>; conversely, for a target of at
  least \<open>0.002\<close>, a non-empty selection with \<open>|s - t| < 0.001\<close> enables Confirm. For at
  most 1024 selected rows whose absolute quantities sum to at most \<open>2\<^sup>2\<^sup>0\<close>, \<open>s\<close>
  differs from their exact sum \<open>S\<close> by at most \<open>2\<^sup>-\<^sup>2\<^sup>2\<close>, so that Confirm enabled
  implies \<open>|S - t| < 0.001001\<close> and, for \<open>t \<ge> 0.002\<close>, a non-empty selection with
  \<open>|S - t| \<le> 0.000999\<close> enables Confirm. A click on the enabled button emits \<open>s\<close>;
  the disabled button emits nothing.
\<close>

theorem C10_canConfirm:
  "(targetQty m \<le> 0 \<longrightarrow> (canConfirm m \<longleftrightarrow> selectedIds m \<noteq> {||})) \<and>
   (0 < targetQty m \<and> canConfirm m \<longrightarrow>
      selectedIds m \<noteq> {||} \<and>
      (\<exists>s. selectedTotalQty m = Num s \<and> \<bar>s - targetQty m\<bar> < 1 / 1000)) \<and>
   (is_double (targetQty m) \<and> 2 / 1000 \<le> targetQty m \<and> selectedIds m \<noteq> {||} \<and>
    selectedTotalQty m = Num s \<and> \<bar>s - targetQty m\<bar> < 1 / 1000 \<longrightarrow> canConfirm m) \<and>
   ((\<Sum>t\<leftarrow>selectedRows m. \<bar>qty t\<bar>) \<le> 2 ^ 20 \<and> length (selectedRows m) \<le> 2 ^ 10 \<longrightarrow>
      (\<exists>s. selectedTotalQty m = Num s \<and> \<bar>s - (\<Sum>t\<leftarrow>selectedRows m. qty t)\<bar> \<le> 1 / 2 ^ 22) \<and>
      (0 < targetQty m \<and> canConfirm m \<longrightarrow>
         \<bar>(\<Sum>t\<leftarrow>selectedRows m. qty t) - targetQty m\<bar> < 1001 / 1000000) \<and>
      (is_double (targetQty m) \<and> 2 / 1000 \<le> targetQty m \<and> selectedIds m \<noteq> {||} \<and>
       \<bar>(\<Sum>t\<leftarrow>selectedRows m. qty t) - targetQty m\<bar> \<le> 999 / 1000000 \<longrightarrow> canConfirm m)) \<and>
   (canConfirm m \<longrightarrow> clickConfirm m = Some (selectedTotalQty m)) \<and>
   (\<not> canConfirm m \<longrightarrow> clickConfirm m = None)"
proof (intro conjI impI)
  assume "targetQty m \<le> 0"
  then show "canConfirm m \<longleftrightarrow> selectedIds m \<noteq> {||}" unfolding canConfirm_iff by simp
next
  assume a: "0 < targetQty m \<and> canConfirm m"
  then show "selectedIds m \<noteq> {||}" using canConfirm_imp(1) by blast
  from a show "\<exists>s. selectedTotalQty m = Num s \<and> \<bar>s - targetQty m\<bar> < 1 / 1000"
    using canConfirm_imp(2) by blast
next
  assume "is_double (targetQty m) \<and> 2 / 1000 \<le> targetQty m \<and> selectedIds m \<noteq> {||} \<and>
    selectedTotalQty m = Num s \<and> \<bar>s - targetQty m\<bar> < 1 / 1000"
  then show "canConfirm m" using canConfirm_if by blast
next
  assume h: "(\<Sum>t\<leftarrow>selectedRows m. \<bar>qty t\<bar>) \<le> 2 ^ 20 \<and> length (selectedRows m) \<le> 2 ^ 10"
  then obtain s where s: "selectedTotalQty m = Num s"
    and e: "\<bar>s - (\<Sum>t\<leftarrow>selectedRows m. qty t)\<bar> \<le> 1 / 2 ^ 22"
    using selectedTotalQty_near by blast
  have n: "(1 :: rat) / 2 ^ 22 < 1 / 1000000" by simp
  from s e show "\<exists>s. selectedTotalQty m = Num s \<and> \<bar>s - (\<Sum>t\<leftarrow>selectedRows m. qty t)\<bar> \<le> 1 / 2 ^ 22"
    by blast
  {
    assume "0 < targetQty m \<and> canConfirm m"
    then obtain s' where "selectedTotalQty m = Num s'" "\<bar>s' - targetQty m\<bar> < 1 / 1000"
      using canConfirm_imp(2) by blast
    with s have "\<bar>s - targetQty m\<bar> < 1 / 1000" by simp
    with e n show "\<bar>(\<Sum>t\<leftarrow>selectedRows m. qty t) - targetQty m\<bar> < 1001 / 1000000" by linarith
  }
  {
    assume a: "is_double (targetQty m) \<and> 2 / 1000 \<le> targetQty m \<and> selectedIds m \<noteq> {||} \<and>
       \<bar>(\<Sum>t\<leftarrow>selectedRows m. qty t) - targetQty m\<bar> \<le> 999 / 1000000"
    with e n have "\<bar>s - targetQty m\<bar> < 1 / 1000" by linarith
    with a s show "canConfirm m" using canConfirm_if by blast
  }
next
  assume "canConfirm m"
  then show "clickConfirm m = Some (selectedTotalQty m)" by (simp add: clickConfirm_def onConfirm_def)
next
  assume "\<not> canConfirm m"
  then show "clickConfirm m = None" by (simp add: clickConfirm_def)
qed

theorem C10_canConfirm_witness:
  "canConfirm (S5_modal 0) \<and> clickConfirm (S5_modal 0) = Some (Num 60) \<and>
   canConfirm (S5_modal 60) \<and> clickConfirm (S5_modal 60) = Some (Num 60) \<and>
   \<not> canConfirm (S5_modal 50) \<and> clickConfirm (S5_modal 50) = None \<and>
   canConfirm (one_row_modal (49999 / 1000) 50) \<and>
   clickConfirm (one_row_modal (49999 / 1000) 50) = Some (Num (round_fin (49999 / 1000)))"
proof -
  note c0 = C10_canConfirm [where m = "S5_modal 0"]
  note c60 = C10_canConfirm [where m = "S5_modal 60" and s = 60]
  note c50 = C10_canConfirm [where m = "S5_modal 50"]
  note c1 = C10_canConfirm [where m = "one_row_modal (49999 / 1000) 50"
      and s = "round_fin (49999 / 1000)"]
  have d: "is_double 60" "is_double 50"
    using is_double_of_int [of 60] is_double_of_int [of 50] by simp_all
  have t1: "selectedTotalQty (one_row_modal (49999 / 1000) 50) = Num (round_fin (49999 / 1000))"
    using double_49_999(1) by (rule one_row_modal_total)
  have 0: "canConfirm (S5_modal 0)"
    using c0 by (simp add: S5_modal_nonempty)
  have 60: "canConfirm (S5_modal 60)"
    using c60 d by (simp add: S5_modal_nonempty S5_modal_total)
  have 50: "\<not> canConfirm (S5_modal 50)"
    using c50 by (auto simp: S5_modal_nonempty S5_modal_total)
  have 1: "canConfirm (one_row_modal (49999 / 1000) 50)"
    using c1 d double_49_999(2) by (simp add: one_row_modal_fields t1)
  from 0 c0 have "clickConfirm (S5_modal 0) = Some (Num 60)" by (simp add: S5_modal_total)
  moreover from 60 c60 have "clickConfirm (S5_modal 60) = Some (Num 60)" by (simp add: S5_modal_total)
  moreover from 50 c50 have "clickConfirm (S5_modal 50) = None" by simp
  moreover from 1 c1 have "clickConfirm (one_row_modal (49999 / 1000) 50)
      = Some (Num (round_fin (49999 / 1000)))" by (simp add: t1)
  ultimately show ?thesis using 0 60 50 1 by simp
qed

lemma blank_WHKON1: "\<not> blank (Some ''WHKON1'')"
  by (simp add: blank_def String_trim_def strip.simps [of _ "''WHKON1''"]
      strip.simps [of _ "''1NOKHW''"] WhiteSpace_def)

lemma blank_no_break_spaces: "blank (Some [CHR 0xC2, CHR 0xA0, CHR 0x20, CHR 0xE3, CHR 0x80, CHR 0x80])"
  by (simp add: blank_def String_trim_def strip.simps [of _ "[CHR 0xC2, CHR 0xA0, CHR 0x20, CHR 0xE3, CHR 0x80, CHR 0x80]"]
      strip.simps [of _ "[CHR 0x20, CHR 0xE3, CHR 0x80, CHR 0x80]"]
      strip.simps [of _ "[CHR 0xE3, CHR 0x80, CHR 0x80]"] strip.simps [of _ "[]"] WhiteSpace_def)

lemma comp_S_qty: "parseFloat_or_0 (putawayQty (comp_S cs (Some q))) = q \<and> qtyCommitSales (lot_S cs) = cs"
  by (simp add: comp_S_def lot_S_def parseFloat_or_0_def)

lemma comp_S_ok: "selectedLot (comp_S cs q) = Some (lot_S cs) \<and> \<not> blank (toBinNumber (comp_S cs q))"
  by (simp add: comp_S_def blank_WHKON1)

lemma sent_executeCommittedTransfer:
  assumes "selectedLot c = Some lot" and "\<not> blank (toBinNumber c)"
  shows "\<exists>r. snd (executeCommittedTransfer t c) = Some r \<and> c_transfer_qty r = t \<and>
    c_source_bin r = binNumber lot \<and> c_lot_no r = lotNumber lot"
  using assms by (simp add: executeCommittedTransfer_def)

lemma openTransactionModal_cases:
  assumes "selectedLot c = Some lot" and "\<not> blank (toBinNumber c)"
    and "parseFloat_or_0 (putawayQty c) = q" and "qtyCommitSales lot = cs"
  shows "openTransactionModal c =
    (if q > cs then (setError (CommittedExceeded q cs) c, None)
     else if js_less (Math_abs (js_minus (Num q) (Num cs))) (lit (1 / 1000))
     then executeCommittedTransfer q c
     else (c\<lparr>targetTransferQty := q, error := None, isTransactionModalOpen := True\<rparr>, None))"
  using assms by (simp add: openTransactionModal_def Let_def clearMessages_def)

lemma double_50_0005:
  "50 < round_fin (100001 / 2000)" "\<bar>round_fin (100001 / 2000) - 50\<bar> < 1 / 1000"
  by code_simp+

text \<open>
  Claim C1, as stated, fails: the quantity entered as \<open>50.0005\<close> exceeds a commitment
  of 50 by less than \<open>0.001\<close>, yet \<open>openTransactionModal\<close> tests
  \<open>putawayQty > qtyCommitSales\<close> first and reports the error; nothing is sent.
\<close>

theorem C1_counterexample:
  "\<bar>(100001 / 2000 :: rat) - 50\<bar> < 1 / 1000 \<and>
   \<bar>round_fin (100001 / 2000) - qtyCommitSales (lot_S 50)\<bar> < 1 / 1000 \<and>
   snd (openTransactionModal (comp_S 50 (Some (round_fin (100001 / 2000))))) = None \<and>
   error (fst (openTransactionModal (comp_S 50 (Some (round_fin (100001 / 2000))))))
     = Some (CommittedExceeded (round_fin (100001 / 2000)) 50)"
  using double_50_0005
  by (simp add: openTransactionModal_cases [OF conjunct1 [OF comp_S_ok] conjunct2 [OF comp_S_ok]
        conjunct1 [OF comp_S_qty] conjunct2 [OF comp_S_qty]] setError_def)
    (simp add: lot_S_def)

text \<open>
  Claim C1, amended. With a lot selected and a non-blank destination bin, a request on
  the committed path is decided by comparing the entered quantity \<open>q\<close> with the source
  bin's \<open>committed_sales\<close> \<open>cs\<close>. If \<open>q > cs\<close> (by any amount) it fails, reporting
  both figures, and nothing is sent. The transfer executes at once, without a selection,
  only when \<open>q \<le> cs\<close> and \<open>cs - q < 0.001\<close>; and it does execute then, for the whole
  of \<open>q\<close>, whenever \<open>cs\<close> is at least \<open>0.002\<close> (\<open>q\<close> and \<open>cs\<close> being doubles). If
  \<open>q \<le> cs - 0.001\<close> the selection modal opens with target \<open>q\<close> and nothing is sent
  yet. For \<open>q \<le> cs\<close> one of the last two happens.
\<close>

theorem C1_openTransactionModal:
  assumes "selectedLot c = Some lot" and "\<not> blank (toBinNumber c)"
    and "parseFloat_or_0 (putawayQty c) = q" and "qtyCommitSales lot = cs"
  shows "(q > cs \<longrightarrow> openTransactionModal c = (setError (CommittedExceeded q cs) c, None)) \<and>
    (q \<le> cs \<and> snd (openTransactionModal c) \<noteq> None \<longrightarrow>
       cs - q < 1 / 1000 \<and> openTransactionModal c = executeCommittedTransfer q c) \<and>
    (q \<le> cs \<and> cs - q < 1 / 1000 \<and> is_double q \<and> is_double cs \<and> 2 / 1000 \<le> cs \<longrightarrow>
       openTransactionModal c = executeCommittedTransfer q c \<and>
       (\<exists>r. snd (openTransactionModal c) = Some r \<and> c_transfer_qty r = q \<and>
            c_source_bin r = binNumber lot \<and> c_lot_no r = lotNumber lot)) \<and>
    (q \<le> cs - 1 / 1000 \<longrightarrow>
       openTransactionModal c =
         (c\<lparr>targetTransferQty := q, error := None, isTransactionModalOpen := True\<rparr>, None)) \<and>
    (q \<le> cs \<and> snd (openTransactionModal c) = None \<longrightarrow>
       openTransactionModal c =
         (c\<lparr>targetTransferQty := q, error := None, isTransactionModalOpen := True\<rparr>, None))"
proof -
  let ?T = "js_less (Math_abs (js_minus (Num q) (Num cs))) (lit (1 / 1000))"
  note o = openTransactionModal_cases [OF assms]
  obtain r where r: "snd (executeCommittedTransfer q c) = Some r" "c_transfer_qty r = q"
      "c_source_bin r = binNumber lot" "c_lot_no r = lotNumber lot"
    using sent_executeCommittedTransfer [OF assms(1,2)] by blast
  have t: "?T \<Longrightarrow> \<bar>q - cs\<bar> < 1 / 1000" by (rule close_imp)
  have 1: "q > cs \<longrightarrow> openTransactionModal c = (setError (CommittedExceeded q cs) c, None)"
    unfolding o by simp
  have 2: "q \<le> cs \<and> snd (openTransactionModal c) \<noteq> None \<longrightarrow>
       cs - q < 1 / 1000 \<and> openTransactionModal c = executeCommittedTransfer q c"
  proof
    assume a: "q \<le> cs \<and> snd (openTransactionModal c) \<noteq> None"
    then have "?T" unfolding o by (auto split: if_splits)
    with t a show "cs - q < 1 / 1000 \<and> openTransactionModal c = executeCommittedTransfer q c"
      unfolding o by auto
  qed
  have 3: "q \<le> cs \<and> cs - q < 1 / 1000 \<and> is_double q \<and> is_double cs \<and> 2 / 1000 \<le> cs \<longrightarrow>
       openTransactionModal c = executeCommittedTransfer q c \<and>
       (\<exists>r. snd (openTransactionModal c) = Some r \<and> c_transfer_qty r = q \<and>
            c_source_bin r = binNumber lot \<and> c_lot_no r = lotNumber lot)"
  proof
    assume a: "q \<le> cs \<and> cs - q < 1 / 1000 \<and> is_double q \<and> is_double cs \<and> 2 / 1000 \<le> cs"
    then have "\<bar>q - cs\<bar> < 1 / 1000" by linarith
    with a have "?T" by (intro close_if) simp_all
    with a have "openTransactionModal c = executeCommittedTransfer q c" unfolding o by simp
    with r show "openTransactionModal c = executeCommittedTransfer q c \<and>
       (\<exists>r. snd (openTransactionModal c) = Some r \<and> c_transfer_qty r = q \<and>
            c_source_bin r = binNumber lot \<and> c_lot_no r = lotNumber lot)"
      by simp
  qed
  have 4: "q \<le> cs - 1 / 1000 \<longrightarrow>
       openTransactionModal c =
         (c\<lparr>targetTransferQty := q, error := None, isTransactionModalOpen := True\<rparr>, None)"
  proof
    assume a: "q \<le> cs - 1 / 1000"
    then have "\<not> \<bar>q - cs\<bar> < 1 / 1000" by linarith
    with t have "\<not> ?T" by blast
    with a show "openTransactionModal c =
         (c\<lparr>targetTransferQty := q, error := None, isTransactionModalOpen := True\<rparr>, None)"
      unfolding o by simp
  qed
  have 5: "q \<le> cs \<and> snd (openTransactionModal c) = None \<longrightarrow>
       openTransactionModal c =
         (c\<lparr>targetTransferQty := q, error := None, isTransactionModalOpen := True\<rparr>, None)"
    unfolding o using r(1) by auto
  from 1 2 3 4 5 show ?thesis by blast
qed

theorem C1_openTransactionModal_witness:
  "openTransactionModal (comp_S 50 (Some 60))
     = (setError (CommittedExceeded 60 50) (comp_S 50 (Some 60)), None) \<and>
   (\<exists>r. snd (openTransactionModal (comp_S 50 (Some 50))) = Some r \<and> c_transfer_qty r = 50) \<and>
   (\<exists>r. snd (openTransactionModal (comp_S 50 (Some (round_fin (49999 / 1000))))) = Some r \<and>
        c_transfer_qty r = round_fin (49999 / 1000)) \<and>
   openTransactionModal (comp_S 50 (Some 20))
     = ((comp_S 50 (Some 20))\<lparr>targetTransferQty := 20, error := None,
          isTransactionModalOpen := True\<rparr>, None)"
proof -
  have h: "selectedLot (comp_S 50 (Some q)) = Some (lot_S 50)"
    "\<not> blank (toBinNumber (comp_S 50 (Some q)))"
    "parseFloat_or_0 (putawayQty (comp_S 50 (Some q))) = q" "qtyCommitSales (lot_S 50) = 50" for q
    using comp_S_ok comp_S_qty by blast+
  have d: "is_double 50" using is_double_of_int [of 50] by simp
  from C1_openTransactionModal [OF h, of 60]
  have "(60 :: rat) > 50 \<longrightarrow> openTransactionModal (comp_S 50 (Some 60))
     = (setError (CommittedExceeded 60 50) (comp_S 50 (Some 60)), None)"
    by (elim conjE)
  moreover have "(60 :: rat) > 50" by simp
  ultimately have 1: "openTransactionModal (comp_S 50 (Some 60))
     = (setError (CommittedExceeded 60 50) (comp_S 50 (Some 60)), None)"
    by (rule mp)
  have p: "50 \<le> (50 :: rat) \<and> (50 :: rat) - 50 < 1 / 1000 \<and> is_double 50 \<and> is_double 50 \<and>
      2 / 1000 \<le> (50 :: rat)"
    using d by simp
  from C1_openTransactionModal [OF h, of 50]
  have "50 \<le> (50 :: rat) \<and> (50 :: rat) - 50 < 1 / 1000 \<and> is_double 50 \<and> is_double 50 \<and>
      2 / 1000 \<le> (50 :: rat) \<longrightarrow>
       openTransactionModal (comp_S 50 (Some 50)) = executeCommittedTransfer 50 (comp_S 50 (Some 50)) \<and>
       (\<exists>r. snd (openTransactionModal (comp_S 50 (Some 50))) = Some r \<and> c_transfer_qty r = 50 \<and>
            c_source_bin r = binNumber (lot_S 50) \<and> c_lot_no r = lotNumber (lot_S 50))"
    by (elim conjE)
  with p have 2: "\<exists>r. snd (openTransactionModal (comp_S 50 (Some 50))) = Some r \<and> c_transfer_qty r = 50"
    by blast
  let ?q = "round_fin (49999 / 1000)"
  have p': "?q \<le> 50 \<and> 50 - ?q < 1 / 1000 \<and> is_double ?q \<and> is_double 50 \<and> 2 / 1000 \<le> (50 :: rat)"
    using d double_49_999 by simp
  from C1_openTransactionModal [OF h, of ?q]
  have "?q \<le> 50 \<and> 50 - ?q < 1 / 1000 \<and> is_double ?q \<and> is_double 50 \<and> 2 / 1000 \<le> (50 :: rat) \<longrightarrow>
       openTransactionModal (comp_S 50 (Some ?q)) = executeCommittedTransfer ?q (comp_S 50 (Some ?q)) \<and>
       (\<exists>r. snd (openTransactionModal (comp_S 50 (Some ?q))) = Some r \<and> c_transfer_qty r = ?q \<and>
            c_source_bin r = binNumber (lot_S 50) \<and> c_lot_no r = lotNumber (lot_S 50))"
    by (elim conjE)
  with p' have 3: "\<exists>r. snd (openTransactionModal (comp_S 50 (Some ?q))) = Some r \<and>
        c_transfer_qty r = ?q"
    by blast
  from C1_openTransactionModal [OF h, of 20]
  have "(20 :: rat) \<le> 50 - 1 / 1000 \<longrightarrow> openTransactionModal (comp_S 50 (Some 20))
     = ((comp_S 50 (Some 20))\<lparr>targetTransferQty := 20, error := None,
          isTransactionModalOpen := True\<rparr>, None)"
    by (elim conjE)
  moreover have "(20 :: rat) \<le> 50 - 1 / 1000" by simp
  ultimately have 4: "openTransactionModal (comp_S 50 (Some 20))
     = ((comp_S 50 (Some 20))\<lparr>targetTransferQty := 20, error := None,
          isTransactionModalOpen := True\<rparr>, None)"
    by (rule mp)
  from 1 2 3 4 show ?thesis by blast
qed

lemma confirmSelection_cases:
  assumes "targetTransferQty c = t"
  shows "confirmSelection rows ids c =
    (if \<not> canConfirm (modal_of c rows ids) then (c, None)
     else if js_greater (Math_abs (js_minus (selectedTotalQty (modal_of c rows ids)) (Num t)))
               (lit (1 / 1000))
     then (onTransactionModalClosed
             (setError (QuantityMismatch (selectedTotalQty (modal_of c rows ids)) t) c), None)
     else (onTransactionModalClosed (fst (executeCommittedTransfer t c)),
           snd (executeCommittedTransfer t c)))"
  using assms
  by (simp add: confirmSelection_def clickConfirm_def onConfirm_def onTransactionsSelected_def
      Let_def case_prod_beta)

lemma modal_of_fields:
  "targetQty (modal_of c rows ids) = targetTransferQty c" "selectedIds (modal_of c rows ids) = ids"
  "selectedRows (modal_of c rows ids) = filter (\<lambda>r. lot_tran_no r |\<in>| ids) rows"
  by (simp_all add: modal_of_def selectedRows_def)

lemma zero_target_test:
  assumes "is_double s" and "\<bar>s\<bar> \<noteq> round_fin (1 / 1000)"
  shows "\<not> js_greater (Math_abs (js_minus (Num s) (Num 0))) (lit (1 / 1000)) \<longleftrightarrow> \<bar>s\<bar> < 1 / 1000"
proof -
  from assms(1) have b: "binary64 s = Num s" and r: "round_fin s = s"
    unfolding is_double_def binary64_Num by blast+
  have g: "js_greater (Math_abs (js_minus (Num s) (Num 0))) (lit (1 / 1000))
      \<longleftrightarrow> round_fin (1 / 1000) < \<bar>s\<bar>"
    by (simp add: js_greater_def js_minus_def lit_0_001 b)
  have l: "(1 / 1000 :: rat) < round_fin (1 / 1000)" unfolding literal_0_001 by simp
  show ?thesis
  proof
    assume "\<not> js_greater (Math_abs (js_minus (Num s) (Num 0))) (lit (1 / 1000))"
    with g assms(2) have "\<bar>round_fin s\<bar> < round_fin (1 / 1000)" unfolding r by linarith
    then have "\<bar>s\<bar> < 1 / 1000" by (rule round_fin_small)
    then show "\<bar>s\<bar> < 1 / 1000" .
  next
    assume "\<bar>s\<bar> < 1 / 1000"
    with l g show "\<not> js_greater (Math_abs (js_minus (Num s) (Num 0))) (lit (1 / 1000))"
      by linarith
  qed
qed

lemma comp_open_eq:
  assumes "t \<le> 500 - 1 / 1000"
  shows "comp_open t = (comp_S 500 (Some t))\<lparr>targetTransferQty := t, error := None,
    isTransactionModalOpen := True\<rparr>"
proof -
  have "\<not> \<bar>t - 500\<bar> < 1 / 1000" using assms by linarith
  then have "\<not> js_less (Math_abs (js_minus (Num t) (Num 500))) (lit (1 / 1000))"
    using close_imp by blast
  moreover have "\<not> t > 500" using assms by linarith
  ultimately show ?thesis
    unfolding comp_open_def
    by (simp add: openTransactionModal_cases [OF conjunct1 [OF comp_S_ok] conjunct2 [OF comp_S_ok]
          conjunct1 [OF comp_S_qty] conjunct2 [OF comp_S_qty]])
qed

lemma comp_open_fields:
  assumes "t \<le> 500 - 1 / 1000"
  shows "selectedLot (comp_open t) = Some (lot_S 500)" and "\<not> blank (toBinNumber (comp_open t))"
    and "targetTransferQty (comp_open t) = t"
  unfolding comp_open_eq [OF assms] using comp_S_ok [of 500 "Some t"] by simp_all

lemma one_row_total:
  assumes "is_double (round_fin q)"
  shows "selectedTotalQty (modal_of c [pending_row 1 q] {|1|}) = Num (round_fin q)"
  using js_plus_0 [OF assms]
  by (simp add: selectedTotalQty_def selectedRows_def modal_of_def pending_row_def)

lemma two_rows_total:
  assumes "is_double (round_fin p)" and "\<bar>round_fin (round_fin p + round_fin q)\<bar> < 2 ^ 1024"
  shows "selectedTotalQty (modal_of c [pending_row 1 p, pending_row 2 q] {|1, 2|})
    = Num (round_fin (round_fin p + round_fin q))"
  using js_plus_0 [OF assms(1)] binary64_eq [OF assms(2)]
  by (simp add: selectedTotalQty_def selectedRows_def modal_of_def pending_row_def)

lemma double_60_001:
  "is_double (round_fin (60001 / 1000))" "\<bar>round_fin (60001 / 1000) - 60\<bar> < 1 / 1000"
proof -
  have "\<bar>round_fin (60001 / 1000)\<bar> \<le> 61" by code_simp
  then show "is_double (round_fin (60001 / 1000))" by (rule is_double_bounded) simp
  show "\<bar>round_fin (60001 / 1000) - 60\<bar> < 1 / 1000" by code_simp
qed

lemma double_158_658:
  "is_double (round_fin (99741 / 1000))"
  "\<bar>round_fin (round_fin (99741 / 1000) + round_fin (58916 / 1000))\<bar> \<le> 159"
  "round_fin (1 / 1000) \<le> \<bar>round_fin (round_fin (round_fin (99741 / 1000) + round_fin (58916 / 1000))
        - round_fin (158658 / 1000))\<bar>"
  "\<bar>round_fin (round_fin (round_fin (99741 / 1000) + round_fin (58916 / 1000))
        - round_fin (158658 / 1000))\<bar> \<le> 1"
  "\<bar>round_fin (99741 / 1000) + round_fin (58916 / 1000) - round_fin (158658 / 1000)\<bar> < 1 / 1000"
  "0 < round_fin (158658 / 1000)" "round_fin (158658 / 1000) \<le> 500 - 1 / 1000"
proof -
  have "\<bar>round_fin (99741 / 1000)\<bar> \<le> 100" by code_simp
  then show "is_double (round_fin (99741 / 1000))" by (rule is_double_bounded) simp
  show "\<bar>round_fin (round_fin (99741 / 1000) + round_fin (58916 / 1000))\<bar> \<le> 159" by code_simp
  show "round_fin (1 / 1000) \<le> \<bar>round_fin (round_fin (round_fin (99741 / 1000) + round_fin (58916 / 1000))
        - round_fin (158658 / 1000))\<bar>" by code_simp
  show "\<bar>round_fin (round_fin (round_fin (99741 / 1000) + round_fin (58916 / 1000))
        - round_fin (158658 / 1000))\<bar> \<le> 1" by code_simp
  show "\<bar>round_fin (99741 / 1000) + round_fin (58916 / 1000) - round_fin (158658 / 1000)\<bar> < 1 / 1000"
    by code_simp
  show "0 < round_fin (158658 / 1000)" by code_simp
  show "round_fin (158658 / 1000) \<le> 500 - 1 / 1000" by code_simp
qed

lemma total_S5:
  "selectedTotalQty (modal_of c S5_rows {|1, 2|}) = Num 60"
  "selectedTotalQty (modal_of c S5_rows {|1|}) = Num 30"
  "selectedTotalQty (modal_of c S5_rows {|3|}) = Num 20"
  "selectedTotalQty (modal_of c S5_rows {||}) = Num 0"
  by (simp_all add: selectedTotalQty_def selectedRows_def modal_of_def S5_rows_def binary64_values)

text \<open>
  Claim C3, as stated, fails at the edge of the tolerance. Read on the decimals: for the
  target 60 and the one pending row of \<open>60.001\<close> ticked, the quantities differ by
  exactly \<open>0.001\<close>, which is not within the tolerance, yet Confirm is enabled and the
  transfer of 60 is sent. Read on the doubles: the rows \<open>99.741\<close> and \<open>58.916\<close>
  ticked for the target \<open>158.658\<close> have quantities whose sum differs from the target
  by less than \<open>0.001\<close>, yet the running sum rounds to \<open>158.65699999999998\<close>, Confirm
  is disabled and nothing is sent.
\<close>

theorem C3_counterexample:
  "\<not> \<bar>(60001 / 1000 :: rat) - 60\<bar> < 1 / 1000 \<and>
   targetTransferQty (comp_open 60) = 60 \<and>
   map_option c_transfer_qty (snd (confirmSelection [pending_row 1 (60001 / 1000)] {|1|} (comp_open 60)))
     = Some 60 \<and>
   targetTransferQty (comp_open (round_fin (158658 / 1000))) = round_fin (158658 / 1000) \<and>
   \<bar>qty (pending_row 1 (99741 / 1000)) + qty (pending_row 2 (58916 / 1000))
      - round_fin (158658 / 1000)\<bar> < 1 / 1000 \<and>
   snd (confirmSelection [pending_row 1 (99741 / 1000), pending_row 2 (58916 / 1000)] {|1, 2|}
          (comp_open (round_fin (158658 / 1000)))) = None"
proof -
  let ?c = "comp_open 60" and ?rows = "[pending_row 1 (60001 / 1000)]"
  have le: "(60 :: rat) \<le> 500 - 1 / 1000" by simp
  note f = comp_open_fields [OF le]
  have tot: "selectedTotalQty (modal_of ?c ?rows {|1|}) = Num (round_fin (60001 / 1000))"
    using double_60_001(1) by (rule one_row_total)
  have can: "canConfirm (modal_of ?c ?rows {|1|})"
  proof (rule canConfirm_if)
    show "selectedTotalQty (modal_of ?c ?rows {|1|}) = Num (round_fin (60001 / 1000))" by (rule tot)
    show "is_double (targetQty (modal_of ?c ?rows {|1|}))"
      using is_double_of_int [of 60] by (simp add: modal_of_fields f)
    show "\<bar>round_fin (60001 / 1000) - targetQty (modal_of ?c ?rows {|1|})\<bar> < 1 / 1000"
      using double_60_001(2) by (simp add: modal_of_fields f)
  qed (simp_all add: modal_of_fields f)
  then have "js_less (Math_abs (js_minus (Num (round_fin (60001 / 1000))) (Num 60))) (lit (1 / 1000))"
    unfolding canConfirm_iff tot by (simp add: modal_of_fields f)
  then have ng: "\<not> js_greater (Math_abs (js_minus (Num (round_fin (60001 / 1000))) (Num 60)))
      (lit (1 / 1000))"
    using greater_not_less by blast
  obtain r where r: "snd (executeCommittedTransfer 60 ?c) = Some r" "c_transfer_qty r = 60"
    using sent_executeCommittedTransfer [OF f(1,2)] by blast
  have 1: "map_option c_transfer_qty (snd (confirmSelection ?rows {|1|} ?c)) = Some 60"
    unfolding confirmSelection_cases [OF f(3)] tot using can ng r by simp
  let ?t = "round_fin (158658 / 1000)"
  let ?c' = "comp_open ?t"
  let ?rows' = "[pending_row 1 (99741 / 1000), pending_row 2 (58916 / 1000)]"
  note f' = comp_open_fields [OF double_158_658(7)]
  have b: "\<bar>round_fin (round_fin (99741 / 1000) + round_fin (58916 / 1000))\<bar> < 2 ^ 1024"
  proof -
    have "(159 :: rat) < 2 ^ 1024" by simp
    with double_158_658(2) show ?thesis by linarith
  qed
  have tot': "selectedTotalQty (modal_of ?c' ?rows' {|1, 2|})
      = Num (round_fin (round_fin (99741 / 1000) + round_fin (58916 / 1000)))"
    using double_158_658(1) b by (rule two_rows_total)
  have b': "\<bar>round_fin (round_fin (round_fin (99741 / 1000) + round_fin (58916 / 1000)) - ?t)\<bar>
      < 2 ^ 1024"
  proof -
    have "(1 :: rat) < 2 ^ 1024" by simp
    with double_158_658(4) show ?thesis by linarith
  qed
  have "\<not> canConfirm (modal_of ?c' ?rows' {|1, 2|})"
    unfolding canConfirm_iff tot' modal_of_fields f'(3) close_iff [OF b']
    using double_158_658(3,6) by simp
  then have 2: "snd (confirmSelection ?rows' {|1, 2|} ?c') = None"
    unfolding confirmSelection_cases [OF f'(3)] by simp
  have 3: "\<bar>qty (pending_row 1 (99741 / 1000)) + qty (pending_row 2 (58916 / 1000)) - ?t\<bar> < 1 / 1000"
    using double_158_658(5) by (simp add: pending_row_def)
  from 1 2 3 f(3) f'(3) show ?thesis by simp
qed

text \<open>
  Claim C3, amended. With the selection modal open for the target \<open>t\<close> (a lot selected,
  the destination bin non-blank), a click on Confirm sends the committed transfer, which
  is then of quantity \<open>t\<close>, only for a non-empty selection. For \<open>t > 0\<close> it is sent
  only if the selected total \<open>s\<close>, the running double-precision sum of the ticked rows,
  is finite with \<open>|s - t| < 0.001\<close>, and for \<open>t \<ge> 0.002\<close> it is sent for every
  non-empty selection with \<open>|s - t| < 0.001\<close>. In terms of the exact sum \<open>S\<close> of the
  ticked quantities (at most 1024 rows, absolute quantities summing to at most
  \<open>2\<^sup>2\<^sup>0\<close>): sent implies \<open>|S - t| < 0.001001\<close>, and for \<open>t \<ge> 0.002\<close> a non-empty
  selection with \<open>|S - t| \<le> 0.000999\<close> is sent. For \<open>t = 0\<close> (an empty quantity
  field) and a finite total whose absolute value is not the double \<open>0.001\<close>: sent
  exactly when the selection is non-empty and \<open>|s| < 0.001\<close>. When nothing is sent,
  either the button was disabled and the component is unchanged, or the component
  records the quantity mismatch.
\<close>

theorem C3_confirmSelection:
  assumes "selectedLot c = Some lot" and "\<not> blank (toBinNumber c)"
    and "targetTransferQty c = t"
    and "selectedTotalQty (modal_of c rows ids) = tot"
    and "snd (confirmSelection rows ids c) = sent"
  shows "(sent \<noteq> None \<longrightarrow> ids \<noteq> {||}) \<and>
    (0 < t \<and> sent \<noteq> None \<longrightarrow> (\<exists>s. tot = Num s \<and> \<bar>s - t\<bar> < 1 / 1000)) \<and>
    (is_double t \<and> 2 / 1000 \<le> t \<and> ids \<noteq> {||} \<and> tot = Num s \<and> \<bar>s - t\<bar> < 1 / 1000
       \<longrightarrow> sent \<noteq> None) \<and>
    ((\<Sum>r\<leftarrow>filter (\<lambda>r. lot_tran_no r |\<in>| ids) rows. \<bar>qty r\<bar>) \<le> 2 ^ 20 \<and>
     length (filter (\<lambda>r. lot_tran_no r |\<in>| ids) rows) \<le> 2 ^ 10 \<longrightarrow>
       (0 < t \<and> sent \<noteq> None \<longrightarrow>
          \<bar>(\<Sum>r\<leftarrow>filter (\<lambda>r. lot_tran_no r |\<in>| ids) rows. qty r) - t\<bar> < 1001 / 1000000) \<and>
       (is_double t \<and> 2 / 1000 \<le> t \<and> ids \<noteq> {||} \<and>
        \<bar>(\<Sum>r\<leftarrow>filter (\<lambda>r. lot_tran_no r |\<in>| ids) rows. qty r) - t\<bar> \<le> 999 / 1000000
          \<longrightarrow> sent \<noteq> None)) \<and>
    (t = 0 \<and> tot = Num s \<and> \<bar>s\<bar> \<noteq> round_fin (1 / 1000) \<longrightarrow>
       (sent \<noteq> None \<longleftrightarrow> ids \<noteq> {||} \<and> \<bar>s\<bar> < 1 / 1000)) \<and>
    (\<forall>r. sent = Some r \<longrightarrow> c_transfer_qty r = t) \<and>
    (sent = None \<longrightarrow> fst (confirmSelection rows ids c) = c \<or>
       error (fst (confirmSelection rows ids c)) = Some (QuantityMismatch tot t))"
proof -
  let ?m = "modal_of c rows ids"
  let ?G = "js_greater (Math_abs (js_minus tot (Num t))) (lit (1 / 1000))"
  let ?S = "\<Sum>r\<leftarrow>filter (\<lambda>r. lot_tran_no r |\<in>| ids) rows. qty r"
  have tq: "targetQty ?m = t" and si: "selectedIds ?m = ids"
    using assms(3) by (simp_all add: modal_of_fields)
  obtain r where r: "snd (executeCommittedTransfer t c) = Some r" "c_transfer_qty r = t"
    using sent_executeCommittedTransfer [OF assms(1,2)] by blast
  note cs = confirmSelection_cases [OF assms(3), of rows ids, unfolded assms(4)]
  have sent: "sent = (if canConfirm ?m \<and> \<not> ?G then Some r else None)"
    using assms(5) r(1) unfolding cs by auto
  have pos: "canConfirm ?m \<Longrightarrow> 0 < t \<Longrightarrow> \<not> ?G"
  proof -
    assume "canConfirm ?m" "0 < t"
    then have "js_less (Math_abs (js_minus tot (Num t))) (lit (1 / 1000))"
      unfolding canConfirm_iff tq assms(4) by blast
    then show "\<not> ?G" using greater_not_less by blast
  qed
  have 1: "sent \<noteq> None \<longrightarrow> ids \<noteq> {||}"
    unfolding sent canConfirm_iff si by simp
  have 2: "0 < t \<and> sent \<noteq> None \<longrightarrow> (\<exists>s. tot = Num s \<and> \<bar>s - t\<bar> < 1 / 1000)"
  proof
    assume a: "0 < t \<and> sent \<noteq> None"
    then have "canConfirm ?m" unfolding sent by (simp split: if_splits)
    with a canConfirm_imp(2) [of ?m] show "\<exists>s. tot = Num s \<and> \<bar>s - t\<bar> < 1 / 1000"
      unfolding tq assms(4) by blast
  qed
  have 3: "is_double t \<and> 2 / 1000 \<le> t \<and> ids \<noteq> {||} \<and> tot = Num s' \<and> \<bar>s' - t\<bar> < 1 / 1000
       \<longrightarrow> sent \<noteq> None" for s'
  proof
    assume a: "is_double t \<and> 2 / 1000 \<le> t \<and> ids \<noteq> {||} \<and> tot = Num s' \<and> \<bar>s' - t\<bar> < 1 / 1000"
    then have "canConfirm ?m"
      using canConfirm_if [of ?m s'] unfolding tq si assms(4) by blast
    moreover from a have "0 < t" by linarith
    ultimately show "sent \<noteq> None" using pos unfolding sent by simp
  qed
  have 4: "(\<Sum>r\<leftarrow>filter (\<lambda>r. lot_tran_no r |\<in>| ids) rows. \<bar>qty r\<bar>) \<le> 2 ^ 20 \<and>
     length (filter (\<lambda>r. lot_tran_no r |\<in>| ids) rows) \<le> 2 ^ 10 \<longrightarrow>
       (0 < t \<and> sent \<noteq> None \<longrightarrow> \<bar>?S - t\<bar> < 1001 / 1000000) \<and>
       (is_double t \<and> 2 / 1000 \<le> t \<and> ids \<noteq> {||} \<and> \<bar>?S - t\<bar> \<le> 999 / 1000000
          \<longrightarrow> sent \<noteq> None)"
  proof
    assume "(\<Sum>r\<leftarrow>filter (\<lambda>r. lot_tran_no r |\<in>| ids) rows. \<bar>qty r\<bar>) \<le> 2 ^ 20 \<and>
     length (filter (\<lambda>r. lot_tran_no r |\<in>| ids) rows) \<le> 2 ^ 10"
    then obtain s0 where s0: "tot = Num s0" and e: "\<bar>s0 - ?S\<bar> \<le> 1 / 2 ^ 22"
      using selectedTotalQty_near [of ?m] unfolding modal_of_fields assms(4) by blast
    have n: "(1 :: rat) / 2 ^ 22 < 1 / 1000000" by simp
    have "0 < t \<and> sent \<noteq> None \<longrightarrow> \<bar>?S - t\<bar> < 1001 / 1000000"
    proof
      assume "0 < t \<and> sent \<noteq> None"
      with 2 s0 have "\<bar>s0 - t\<bar> < 1 / 1000" by auto
      with e n show "\<bar>?S - t\<bar> < 1001 / 1000000" by linarith
    qed
    moreover have "is_double t \<and> 2 / 1000 \<le> t \<and> ids \<noteq> {||} \<and> \<bar>?S - t\<bar> \<le> 999 / 1000000
          \<longrightarrow> sent \<noteq> None"
    proof
      assume a: "is_double t \<and> 2 / 1000 \<le> t \<and> ids \<noteq> {||} \<and> \<bar>?S - t\<bar> \<le> 999 / 1000000"
      with e n have "\<bar>s0 - t\<bar> < 1 / 1000" by linarith
      with a s0 3 [of s0] show "sent \<noteq> None" by blast
    qed
    ultimately show "(0 < t \<and> sent \<noteq> None \<longrightarrow> \<bar>?S - t\<bar> < 1001 / 1000000) \<and>
       (is_double t \<and> 2 / 1000 \<le> t \<and> ids \<noteq> {||} \<and> \<bar>?S - t\<bar> \<le> 999 / 1000000
          \<longrightarrow> sent \<noteq> None)" ..
  qed
  have 5: "t = 0 \<and> tot = Num s \<and> \<bar>s\<bar> \<noteq> round_fin (1 / 1000) \<longrightarrow>
       (sent \<noteq> None \<longleftrightarrow> ids \<noteq> {||} \<and> \<bar>s\<bar> < 1 / 1000)"
  proof
    assume a: "t = 0 \<and> tot = Num s \<and> \<bar>s\<bar> \<noteq> round_fin (1 / 1000)"
    then have d: "is_double s" using assms(4) selectedTotalQty_is_double by blast
    from a have c0: "canConfirm ?m \<longleftrightarrow> ids \<noteq> {||}" unfolding canConfirm_iff tq si by simp
    from a zero_target_test [OF d] have "\<not> ?G \<longleftrightarrow> \<bar>s\<bar> < 1 / 1000" by simp
    then show "sent \<noteq> None \<longleftrightarrow> ids \<noteq> {||} \<and> \<bar>s\<bar> < 1 / 1000"
      unfolding sent c0 by simp
  qed
  have 6: "\<forall>r. sent = Some r \<longrightarrow> c_transfer_qty r = t"
    unfolding sent using r(2) by simp
  have 7: "sent = None \<longrightarrow> fst (confirmSelection rows ids c) = c \<or>
       error (fst (confirmSelection rows ids c)) = Some (QuantityMismatch tot t)"
    unfolding sent cs by (simp add: onTransactionModalClosed_def setError_def)
  from 1 2 3 [of s] 4 5 6 7 show ?thesis by blast
qed

theorem C3_confirmSelection_witness:
  "(\<exists>r. snd (confirmSelection S5_rows {|1, 2|} (comp_open 60)) = Some r \<and> c_transfer_qty r = 60) \<and>
   snd (confirmSelection S5_rows {|1|} (comp_open 60)) = None \<and>
   snd (confirmSelection S5_rows {||} (comp_open 60)) = None \<and>
   snd (confirmSelection S5_rows {|3|} (comp_open 0)) = None"
proof -
  have le: "(60 :: rat) \<le> 500 - 1 / 1000" "(0 :: rat) \<le> 500 - 1 / 1000" by simp_all
  note f = comp_open_fields [OF le(1)] and f0 = comp_open_fields [OF le(2)]
  have d: "is_double 60" using is_double_of_int [of 60] by simp
  let ?s12 = "snd (confirmSelection S5_rows {|1, 2|} (comp_open 60))"
  note c12 = C3_confirmSelection [OF f total_S5(1) refl, of 60]
  from c12 have "is_double 60 \<and> 2 / 1000 \<le> (60 :: rat) \<and> {|1, 2|} \<noteq> ({||} :: nat fset) \<and>
      Num 60 = Num 60 \<and> \<bar>(60 :: rat) - 60\<bar> < 1 / 1000 \<longrightarrow> ?s12 \<noteq> None"
    by (elim conjE)
  moreover from c12 have "\<forall>r. ?s12 = Some r \<longrightarrow> c_transfer_qty r = 60"
    by (elim conjE)
  ultimately have 1: "\<exists>r. ?s12 = Some r \<and> c_transfer_qty r = 60" using d by auto
  let ?s1 = "snd (confirmSelection S5_rows {|1|} (comp_open 60))"
  from C3_confirmSelection [OF f total_S5(2) refl, of 0]
  have "(0 :: rat) < 60 \<and> ?s1 \<noteq> None \<longrightarrow> (\<exists>s. Num 30 = Num s \<and> \<bar>s - 60\<bar> < 1 / 1000)"
    by (elim conjE)
  then have 2: "?s1 = None" by auto
  let ?s0 = "snd (confirmSelection S5_rows {||} (comp_open 60))"
  from C3_confirmSelection [OF f total_S5(4) refl, of 0]
  have "?s0 \<noteq> None \<longrightarrow> ({||} :: nat fset) \<noteq> {||}"
    by (elim conjE)
  then have 3: "?s0 = None" by auto
  let ?s3 = "snd (confirmSelection S5_rows {|3|} (comp_open 0))"
  from C3_confirmSelection [OF f0 total_S5(3) refl, of 20]
  have "(0 :: rat) = 0 \<and> Num 20 = Num 20 \<and> \<bar>20 :: rat\<bar> \<noteq> round_fin (1 / 1000) \<longrightarrow>
       (?s3 \<noteq> None \<longleftrightarrow> {|3|} \<noteq> ({||} :: nat fset) \<and> \<bar>20 :: rat\<bar> < 1 / 1000)"
    by (elim conjE)
  then have 4: "?s3 = None" by (simp add: literal_0_001)
  from 1 2 3 4 show ?thesis by blast
qed

lemma sum_map_filter_id:
  "sum_list (List.map_filter id vs) = sum_list (map (\<lambda>v. case v of None \<Rightarrow> 0 | Some q \<Rightarrow> q) vs)"
  for vs :: "number option list"
  by (induction vs) (auto simp: List.map_filter_simps split: option.splits)

lemma SUM_sql_value:
  "(case SUM_sql vs of None \<Rightarrow> 0 | Some s \<Rightarrow> s)
     = sum_list (map (\<lambda>v. case v of None \<Rightarrow> 0 | Some q \<Rightarrow> q) vs)"
proof -
  have "(case SUM_sql vs of None \<Rightarrow> 0 | Some s \<Rightarrow> s) = sum_list (List.map_filter id vs)"
    by (simp add: SUM_sql_def split: list.splits)
  then show ?thesis by (simp add: sum_map_filter_id)
qed

lemma Commitment_value:
  "(case Commitment d item loc lot bin of None \<Rightarrow> 0 | Some s \<Rightarrow> s)
     = (\<Sum>r\<leftarrow>filter (\<lambda>r. pending_outbound r \<and> at_key item loc lot bin r)
               (LotTransaction d @ QCLotTransaction d). issued r)"
  unfolding Commitment_def SUM_sql_value
  by (simp add: issued_def comp_def)

lemma lot_row_at_key: "lot_row d item loc lot bin = Some r \<Longrightarrow> r \<in> set (LotMaster d) \<and> at_key item loc lot bin r"
  by (auto simp: lot_row_def find_Some_iff)

lemma trim_S1:
  "trim ''2600107-1'' = ''2600107-1''" "trim ''INBC1403'' = ''INBC1403''"
  "trim ''TFC1'' = ''TFC1''" "trim ''K0802-4B'' = ''K0802-4B''" "trim ''WHKON1'' = ''WHKON1''"
  by (simp_all add: trim_def is_white_space_def)

lemma decimal_small: "n < 10 \<Longrightarrow> decimal n = [digit_char n]"
  by (subst decimal.simps) simp

lemma decimal_large: "10 \<le> n \<Longrightarrow> decimal n = decimal (n div 10) @ [digit_char (n mod 10)]"
  by (subst decimal.simps) simp

lemma decimal_S1: "decimal 26112174 = ''26112174''"
  by (simp add: decimal_small decimal_large digit_char_def)

lemma S1_lot_row:
  "lot_row S1_db ''INBC1403'' ''TFC1'' ''2600107-1'' ''K0802-4B'' = Some S1_source"
  "lot_row S1_db ''INBC1403'' ''TFC1'' ''2600107-1'' ''WHKON1'' = Some S1_destination"
  by (simp_all add: lot_row_def S1_db_def S1_source_def S1_destination_def at_key_def)

lemma S1_gate:
  "gate S1_db ''INBC1403'' ''TFC1'' ''2600107-1'' ''K0802-4B'' ''WHKON1'' = Inr S1_source"
  by (simp add: gate_def S1_lot_row) (simp add: S1_db_def)

lemma S1_availability:
  "searchAvailability S1_db ''INBC1403'' ''TFC1'' ''2600107-1'' ''K0802-4B''
     = Inr \<lparr>on_hand = 975, committed_sales = 50, available = 925, pending_commit = 50\<rparr>"
  by (simp add: searchAvailability_def S1_lot_row)
    (simp add: S1_source_def Commitment_def S1_db_def S1_pending_def pending_outbound_def
      at_key_def SUM_sql_def List.map_filter_simps)

lemma gate_Inr:
  assumes "gate d item loc lot bin_from bin_to = Inr src"
  shows "lot_row d item loc lot bin_from = Some src" and "bin_to \<noteq> bin_from"
    and "at_key item loc lot bin_from src" and "src \<in> set (LotMaster d)"
proof -
  from assms show 1: "lot_row d item loc lot bin_from = Some src"
    by (simp add: gate_def split: if_splits option.splits)
  from assms show "bin_to \<noteq> bin_from"
    by (simp add: gate_def split: if_splits)
  from 1 show "at_key item loc lot bin_from src" "src \<in> set (LotMaster d)"
    using lot_row_at_key by blast+
qed

lemma commit_transfer_result:
  "fst (commit_transfer delta src bin_to q user today ts d)
     = \<lparr>document_no = ''BT-'' @ decimal (SeqNum d + 1), source_lot_status = Some (LotStatus src),
        destination_lot_status =
          Some (destination_status src
                  (lot_row d (ItemKey src) (LocationKey src) (LotNo src) bin_to)),
        timestamp = ts\<rparr>"
  by (simp add: commit_transfer_def next_BT_def)

lemma commit_transfer_db:
  "snd (commit_transfer delta src bin_to q user today ts d)
     = d\<lparr>SeqNum := SeqNum d + 1,
          LotMaster :=
            map (\<lambda>r. if at_key (ItemKey src) (LocationKey src) (LotNo src) (BinNo src) r
                      then r\<lparr>Qtycommitsales := Qtycommitsales r + delta\<rparr> else r)
              (LotMaster d),
          LotTransaction :=
            LotTransaction d @
              [source_leg src (''BT-'' @ decimal (SeqNum d + 1)) q user today,
               destination_leg src bin_to (''BT-'' @ decimal (SeqNum d + 1)) q user today]\<rparr>"
  by (simp add: commit_transfer_def next_BT_def UPDATE_Qtycommitsales_def
      INSERT_LotTransaction_def)

lemma transfer_Inr:
  assumes "transfer today ts req d = Inr (res, d')"
  shows "\<exists>src. gate d (trim (f_item_key req)) (trim (f_location req)) (trim (f_lot_no req))
              (trim (f_bin_from req)) (trim (f_bin_to req)) = Inr src \<and>
          commit_transfer (f_transfer_qty req) src (trim (f_bin_to req)) (f_transfer_qty req)
              (f_user_id req) today ts d = (res, d')"
  using assms
  by (auto simp: transfer_def Let_def split: if_splits sum.splits)

lemma transferCommitted_Inr:
  assumes "transferCommitted today ts req d = Inr (res, d')"
  shows "\<exists>src. gate d (trim (c_item_key req)) (trim (c_location req)) (trim (c_lot_no req))
              (trim (c_source_bin req)) (trim (c_to_bin req)) = Inr src \<and>
          commit_transfer (- c_transfer_qty req) src (trim (c_to_bin req)) (c_transfer_qty req)
              (c_user_id req) today ts d = (res, d')"
  using assms
  by (auto simp: transferCommitted_def Let_def split: if_splits sum.splits)

lemma commit_transfer_legs:
  assumes "commit_transfer delta src bin_to q user today ts d = (res, d')"
  shows "\<exists>out_leg in_leg.
      LotTransaction d' = LotTransaction d @ [out_leg, in_leg] \<and>
      QCLotTransaction d' = QCLotTransaction d \<and>
      TransactionType out_leg = 9 \<and> BinNo out_leg = BinNo src \<and>
      IssueDocNo out_leg = Some (document_no res) \<and> QtyIssued out_leg = Some q \<and>
      Processed out_leg = CHR ''N'' \<and>
      TransactionType in_leg = 8 \<and> BinNo in_leg = bin_to \<and>
      ReceiptDocNo in_leg = Some (document_no res) \<and> QtyReceived in_leg = Some q \<and>
      Processed in_leg = CHR ''N'' \<and> document_no res = ''BT-'' @ decimal (SeqNum d + 1)"
proof -
  from assms have r: "res = fst (commit_transfer delta src bin_to q user today ts d)"
    and d: "d' = snd (commit_transfer delta src bin_to q user today ts d)"
    by simp_all
  show ?thesis
    unfolding r d commit_transfer_result commit_transfer_db
    by (simp add: source_leg_def destination_leg_def)
qed

text \<open>
  Claim C5. Every committed transfer, on the free path or on the committed path, writes
  exactly two new audit rows: the audit table afterwards is the table before followed by
  an issue leg and a receipt leg, so no earlier row is changed or removed, and the
  QC-audit table is unchanged. Both legs carry the document number of the result, which
  is \<open>BT-\<close> followed by the incremented counter; the
  issue leg has transaction type 9 at the source bin, the receipt leg type 8 at the
  destination bin (a different bin), both have the quantity of the request and
  \<open>Processed = 'N'\<close>.
\<close>

theorem C5_paired_audit_rows:
  assumes "transfer today ts req d = Inr (res, d') \<and> bin_from = trim (f_bin_from req) \<and>
             bin_to = trim (f_bin_to req) \<and> q = f_transfer_qty req
         \<or> transferCommitted today ts creq d = Inr (res, d') \<and>
             bin_from = trim (c_source_bin creq) \<and> bin_to = trim (c_to_bin creq) \<and>
             q = c_transfer_qty creq"
  shows "\<exists>out_leg in_leg.
      LotTransaction d' = LotTransaction d @ [out_leg, in_leg] \<and>
      QCLotTransaction d' = QCLotTransaction d \<and>
      TransactionType out_leg = 9 \<and> BinNo out_leg = bin_from \<and>
      IssueDocNo out_leg = Some (document_no res) \<and> QtyIssued out_leg = Some q \<and>
      Processed out_leg = CHR ''N'' \<and>
      TransactionType in_leg = 8 \<and> BinNo in_leg = bin_to \<and>
      ReceiptDocNo in_leg = Some (document_no res) \<and> QtyReceived in_leg = Some q \<and>
      Processed in_leg = CHR ''N'' \<and> document_no res = ''BT-'' @ decimal (SeqNum d + 1) \<and>
      bin_from \<noteq> bin_to"
  using assms
proof
  assume a: "transfer today ts req d = Inr (res, d') \<and> bin_from = trim (f_bin_from req) \<and>
             bin_to = trim (f_bin_to req) \<and> q = f_transfer_qty req"
  then obtain src where g: "gate d (trim (f_item_key req)) (trim (f_location req))
        (trim (f_lot_no req)) bin_from bin_to = Inr src"
    and c: "commit_transfer q src bin_to q (f_user_id req) today ts d = (res, d')"
    using transfer_Inr by blast
  from gate_Inr [OF g] have "BinNo src = bin_from" "bin_from \<noteq> bin_to"
    by (auto simp: at_key_def)
  with commit_transfer_legs [OF c] show ?thesis by simp
next
  assume a: "transferCommitted today ts creq d = Inr (res, d') \<and>
             bin_from = trim (c_source_bin creq) \<and> bin_to = trim (c_to_bin creq) \<and>
             q = c_transfer_qty creq"
  then obtain src where g: "gate d (trim (c_item_key creq)) (trim (c_location creq))
        (trim (c_lot_no creq)) bin_from bin_to = Inr src"
    and c: "commit_transfer (- q) src bin_to q (c_user_id creq) today ts d = (res, d')"
    using transferCommitted_Inr by blast
  from gate_Inr [OF g] have "BinNo src = bin_from" "bin_from \<noteq> bin_to"
    by (auto simp: at_key_def)
  with commit_transfer_legs [OF c] show ?thesis by simp
qed

lemma commit_transfer_LotMaster:
  assumes "commit_transfer delta src bin_to q user today ts d = (res, d')"
    and "at_key item loc lot bin_from src"
  shows "LotMaster d' =
      map (\<lambda>r. if at_key item loc lot bin_from r
                then r\<lparr>Qtycommitsales := Qtycommitsales r + delta\<rparr> else r) (LotMaster d)"
proof -
  from assms(1) have d: "d' = snd (commit_transfer delta src bin_to q user today ts d)"
    by simp
  from assms(2) have k: "at_key (ItemKey src) (LocationKey src) (LotNo src) (BinNo src)
      = (at_key item loc lot bin_from :: LotMaster_row \<Rightarrow> bool)"
    by (auto simp: at_key_def fun_eq_iff)
  show ?thesis
    unfolding d commit_transfer_db k by simp
qed

lemma update_frame:
  fixes rows :: "LotMaster_row list"
  assumes "rows' = map (\<lambda>r. if P r then r\<lparr>Qtycommitsales := Qtycommitsales r + delta\<rparr> else r) rows"
  shows "length rows' = length rows"
    and "\<forall>i<length rows. QtyOnHand (rows' ! i) = QtyOnHand (rows ! i) \<and>
           (rows' ! i)\<lparr>Qtycommitsales := Qtycommitsales (rows ! i)\<rparr> = rows ! i \<and>
           Qtycommitsales (rows' ! i) =
             (if P (rows ! i) then Qtycommitsales (rows ! i) + delta
              else Qtycommitsales (rows ! i))"
  using assms by simp_all

text \<open>
  Claim C6. Every committed transfer leaves the lot table with the same rows in the same
  places, each with its on-hand quantity unchanged and with every field other than
  \<open>Qtycommitsales\<close> unchanged; a row at the source key exists, and exactly the rows at
  the source key have \<open>Qtycommitsales\<close> changed, by \<open>+ qty\<close> on the free path and by
  \<open>- qty\<close> on the committed path; a row at the destination key is unchanged altogether.
\<close>

theorem C6_lot_rows:
  assumes "transfer today ts req d = Inr (res, d') \<and> item = trim (f_item_key req) \<and>
             loc = trim (f_location req) \<and> lot = trim (f_lot_no req) \<and>
             bin_from = trim (f_bin_from req) \<and> bin_to = trim (f_bin_to req) \<and>
             delta = f_transfer_qty req
         \<or> transferCommitted today ts creq d = Inr (res, d') \<and> item = trim (c_item_key creq) \<and>
             loc = trim (c_location creq) \<and> lot = trim (c_lot_no creq) \<and>
             bin_from = trim (c_source_bin creq) \<and> bin_to = trim (c_to_bin creq) \<and>
             delta = - c_transfer_qty creq"
  shows "length (LotMaster d') = length (LotMaster d) \<and>
    (\<exists>i<length (LotMaster d). at_key item loc lot bin_from (LotMaster d ! i)) \<and>
    (\<forall>i<length (LotMaster d).
       QtyOnHand (LotMaster d' ! i) = QtyOnHand (LotMaster d ! i) \<and>
       (LotMaster d' ! i)\<lparr>Qtycommitsales := Qtycommitsales (LotMaster d ! i)\<rparr> = LotMaster d ! i \<and>
       Qtycommitsales (LotMaster d' ! i) =
         (if at_key item loc lot bin_from (LotMaster d ! i)
          then Qtycommitsales (LotMaster d ! i) + delta else Qtycommitsales (LotMaster d ! i)) \<and>
       (at_key item loc lot bin_to (LotMaster d ! i) \<longrightarrow> LotMaster d' ! i = LotMaster d ! i))"
proof -
  from assms obtain src where g: "gate d item loc lot bin_from bin_to = Inr src"
    and c: "\<exists>q user. commit_transfer delta src bin_to q user today ts d = (res, d')"
    using transfer_Inr transferCommitted_Inr by blast
  note gi = gate_Inr [OF g]
  from c gi(3) have m: "LotMaster d' =
      map (\<lambda>r. if at_key item loc lot bin_from r
                then r\<lparr>Qtycommitsales := Qtycommitsales r + delta\<rparr> else r) (LotMaster d)"
    using commit_transfer_LotMaster by blast
  from gi(3,4) have e: "\<exists>i<length (LotMaster d). at_key item loc lot bin_from (LotMaster d ! i)"
    by (metis in_set_conv_nth)
  have n: "at_key item loc lot bin_to r \<longrightarrow> \<not> at_key item loc lot bin_from r" for r :: LotMaster_row
    using gi(2) by (auto simp: at_key_def)
  show ?thesis
    using update_frame [OF m] e n by (simp add: m)
qed

lemma S1_request_fields:
  "f_item_key (S1_request q) = ''INBC1403''" "f_location (S1_request q) = ''TFC1''"
  "f_lot_no (S1_request q) = ''2600107-1''" "f_bin_from (S1_request q) = ''K0802-4B''"
  "f_bin_to (S1_request q) = ''WHKON1''" "f_transfer_qty (S1_request q) = q"
  "f_user_id (S1_request q) = ''DECHAWAT''"
  by (simp_all add: S1_request_def)

lemma S4_request_fields:
  "c_item_key (S4_request q) = ''INBC1403''" "c_location (S4_request q) = ''TFC1''"
  "c_lot_no (S4_request q) = ''2600107-1''" "c_source_bin (S4_request q) = ''K0802-4B''"
  "c_to_bin (S4_request q) = ''WHKON1''" "c_transfer_qty (S4_request q) = q"
  "c_user_id (S4_request q) = ''DECHAWAT''"
  by (simp_all add: S4_request_def)

lemma S1_transfer:
  "transfer today ts (S1_request 500) S1_db
     = Inr (commit_transfer 500 S1_source ''WHKON1'' 500 ''DECHAWAT'' today ts S1_db)"
  by (simp add: transfer_def S1_request_fields trim_S1 S1_gate S1_availability
      three_decimals_def Let_def)

lemma S4_transferCommitted:
  "transferCommitted today ts (S4_request 50) S1_db
     = Inr (commit_transfer (- 50) S1_source ''WHKON1'' 50 ''DECHAWAT'' today ts S1_db)"
  by (simp add: transferCommitted_def S4_request_fields trim_S1 S1_gate Let_def)
    (simp add: S1_source_def)

lemma S1_document_no:
  "document_no (fst (commit_transfer delta S1_source bin_to q user today ts S1_db)) = ''BT-26112174''"
  by (simp add: commit_transfer_result) (simp add: S1_db_def decimal_S1)

theorem C5_paired_audit_rows_witness:
  "(\<exists>res d' out_leg in_leg.
      transfer ''2026-02-16 00:00:00'' ''2026-02-16T08:36:02Z'' (S1_request 500) S1_db
        = Inr (res, d') \<and>
      document_no res = ''BT-26112174'' \<and>
      LotTransaction d' = [S1_pending, out_leg, in_leg] \<and>
      TransactionType out_leg = 9 \<and> BinNo out_leg = ''K0802-4B'' \<and>
      IssueDocNo out_leg = Some ''BT-26112174'' \<and> QtyIssued out_leg = Some 500 \<and>
      TransactionType in_leg = 8 \<and> BinNo in_leg = ''WHKON1'' \<and>
      ReceiptDocNo in_leg = Some ''BT-26112174'' \<and> QtyReceived in_leg = Some 500) \<and>
   (\<exists>res d' out_leg in_leg.
      transferCommitted ''2026-02-16 00:00:00'' ''2026-02-16T08:36:02Z'' (S4_request 50) S1_db
        = Inr (res, d') \<and>
      document_no res = ''BT-26112174'' \<and>
      LotTransaction d' = [S1_pending, out_leg, in_leg] \<and>
      TransactionType out_leg = 9 \<and> BinNo out_leg = ''K0802-4B'' \<and>
      IssueDocNo out_leg = Some ''BT-26112174'' \<and> QtyIssued out_leg = Some 50 \<and>
      TransactionType in_leg = 8 \<and> BinNo in_leg = ''WHKON1'' \<and>
      ReceiptDocNo in_leg = Some ''BT-26112174'' \<and> QtyReceived in_leg = Some 50)"
proof -
  let ?T = "''2026-02-16 00:00:00''" and ?TS = "''2026-02-16T08:36:02Z''"
  let ?f = "commit_transfer 500 S1_source ''WHKON1'' 500 ''DECHAWAT'' ?T ?TS S1_db"
  let ?c = "commit_transfer (- 50) S1_source ''WHKON1'' 50 ''DECHAWAT'' ?T ?TS S1_db"
  have l: "LotTransaction S1_db = [S1_pending]" by (simp add: S1_db_def)
  have f: "transfer ?T ?TS (S1_request 500) S1_db = Inr (fst ?f, snd ?f)"
    by (simp add: S1_transfer)
  have c: "transferCommitted ?T ?TS (S4_request 50) S1_db = Inr (fst ?c, snd ?c)"
    by (simp add: S4_transferCommitted)
  have hf: "transfer ?T ?TS (S1_request 500) S1_db = Inr (fst ?f, snd ?f) \<and>
      ''K0802-4B'' = trim (f_bin_from (S1_request 500)) \<and>
      ''WHKON1'' = trim (f_bin_to (S1_request 500)) \<and> 500 = f_transfer_qty (S1_request 500)
    \<or> transferCommitted ?T ?TS (S4_request 50) S1_db = Inr (fst ?f, snd ?f) \<and>
      ''K0802-4B'' = trim (c_source_bin (S4_request 50)) \<and>
      ''WHKON1'' = trim (c_to_bin (S4_request 50)) \<and> 500 = c_transfer_qty (S4_request 50)"
    using f by (simp add: S1_request_fields trim_S1)
  from C5_paired_audit_rows [OF hf] obtain ol il where
    "LotTransaction (snd ?f) = LotTransaction S1_db @ [ol, il]"
    "TransactionType ol = 9" "BinNo ol = ''K0802-4B''"
    "IssueDocNo ol = Some (document_no (fst ?f))" "QtyIssued ol = Some 500"
    "TransactionType il = 8" "BinNo il = ''WHKON1''"
    "ReceiptDocNo il = Some (document_no (fst ?f))" "QtyReceived il = Some 500"
    by blast
  with f have 1: "transfer ?T ?TS (S1_request 500) S1_db = Inr (fst ?f, snd ?f) \<and>
      document_no (fst ?f) = ''BT-26112174'' \<and>
      LotTransaction (snd ?f) = [S1_pending, ol, il] \<and>
      TransactionType ol = 9 \<and> BinNo ol = ''K0802-4B'' \<and>
      IssueDocNo ol = Some ''BT-26112174'' \<and> QtyIssued ol = Some 500 \<and>
      TransactionType il = 8 \<and> BinNo il = ''WHKON1'' \<and>
      ReceiptDocNo il = Some ''BT-26112174'' \<and> QtyReceived il = Some 500"
    by (simp only: S1_document_no l append_Cons append_Nil simp_thms)
  have hc: "transfer ?T ?TS (S1_request 500) S1_db = Inr (fst ?c, snd ?c) \<and>
      ''K0802-4B'' = trim (f_bin_from (S1_request 500)) \<and>
      ''WHKON1'' = trim (f_bin_to (S1_request 500)) \<and> 50 = f_transfer_qty (S1_request 500)
    \<or> transferCommitted ?T ?TS (S4_request 50) S1_db = Inr (fst ?c, snd ?c) \<and>
      ''K0802-4B'' = trim (c_source_bin (S4_request 50)) \<and>
      ''WHKON1'' = trim (c_to_bin (S4_request 50)) \<and> 50 = c_transfer_qty (S4_request 50)"
    using c by (simp add: S4_request_fields trim_S1)
  from C5_paired_audit_rows [OF hc] obtain oc ic where
    "LotTransaction (snd ?c) = LotTransaction S1_db @ [oc, ic]"
    "TransactionType oc = 9" "BinNo oc = ''K0802-4B''"
    "IssueDocNo oc = Some (document_no (fst ?c))" "QtyIssued oc = Some 50"
    "TransactionType ic = 8" "BinNo ic = ''WHKON1''"
    "ReceiptDocNo ic = Some (document_no (fst ?c))" "QtyReceived ic = Some 50"
    by blast
  with c have 2: "transferCommitted ?T ?TS (S4_request 50) S1_db = Inr (fst ?c, snd ?c) \<and>
      document_no (fst ?c) = ''BT-26112174'' \<and>
      LotTransaction (snd ?c) = [S1_pending, oc, ic] \<and>
      TransactionType oc = 9 \<and> BinNo oc = ''K0802-4B'' \<and>
      IssueDocNo oc = Some ''BT-26112174'' \<and> QtyIssued oc = Some 50 \<and>
      TransactionType ic = 8 \<and> BinNo ic = ''WHKON1'' \<and>
      ReceiptDocNo ic = Some ''BT-26112174'' \<and> QtyReceived ic = Some 50"
    by (simp only: S1_document_no l append_Cons append_Nil simp_thms)
  from 1 2 show ?thesis by blast
qed

lemma S1_rows:
  "LotMaster S1_db = [S1_source, S1_destination]"
  "at_key ''INBC1403'' ''TFC1'' ''2600107-1'' ''K0802-4B'' S1_source"
  "\<not> at_key ''INBC1403'' ''TFC1'' ''2600107-1'' ''K0802-4B'' S1_destination"
  "at_key ''INBC1403'' ''TFC1'' ''2600107-1'' ''WHKON1'' S1_destination"
  "QtyOnHand S1_source = 975" "Qtycommitsales S1_source = 50"
  by (simp_all add: S1_db_def S1_source_def S1_destination_def at_key_def)

theorem C6_lot_rows_witness:
  "(\<exists>res d'.
      transfer ''2026-02-16 00:00:00'' ''2026-02-16T08:36:02Z'' (S1_request 500) S1_db
        = Inr (res, d') \<and>
      length (LotMaster d') = 2 \<and> QtyOnHand (LotMaster d' ! 0) = 975 \<and>
      Qtycommitsales (LotMaster d' ! 0) = 550 \<and> LotMaster d' ! 1 = S1_destination) \<and>
   (\<exists>res d'.
      transferCommitted ''2026-02-16 00:00:00'' ''2026-02-16T08:36:02Z'' (S4_request 50) S1_db
        = Inr (res, d') \<and>
      length (LotMaster d') = 2 \<and> QtyOnHand (LotMaster d' ! 0) = 975 \<and>
      Qtycommitsales (LotMaster d' ! 0) = 0 \<and> LotMaster d' ! 1 = S1_destination)"
proof -
  let ?T = "''2026-02-16 00:00:00''" and ?TS = "''2026-02-16T08:36:02Z''"
  let ?f = "commit_transfer 500 S1_source ''WHKON1'' 500 ''DECHAWAT'' ?T ?TS S1_db"
  let ?c = "commit_transfer (- 50) S1_source ''WHKON1'' 50 ''DECHAWAT'' ?T ?TS S1_db"
  have f: "transfer ?T ?TS (S1_request 500) S1_db = Inr (fst ?f, snd ?f)"
    by (simp add: S1_transfer)
  have c: "transferCommitted ?T ?TS (S4_request 50) S1_db = Inr (fst ?c, snd ?c)"
    by (simp add: S4_transferCommitted)
  have hf: "transfer ?T ?TS (S1_request 500) S1_db = Inr (fst ?f, snd ?f) \<and>
      ''INBC1403'' = trim (f_item_key (S1_request 500)) \<and>
      ''TFC1'' = trim (f_location (S1_request 500)) \<and>
      ''2600107-1'' = trim (f_lot_no (S1_request 500)) \<and>
      ''K0802-4B'' = trim (f_bin_from (S1_request 500)) \<and>
      ''WHKON1'' = trim (f_bin_to (S1_request 500)) \<and> 500 = f_transfer_qty (S1_request 500)
    \<or> transferCommitted ?T ?TS (S4_request 50) S1_db = Inr (fst ?f, snd ?f) \<and>
      ''INBC1403'' = trim (c_item_key (S4_request 50)) \<and>
      ''TFC1'' = trim (c_location (S4_request 50)) \<and>
      ''2600107-1'' = trim (c_lot_no (S4_request 50)) \<and>
      ''K0802-4B'' = trim (c_source_bin (S4_request 50)) \<and>
      ''WHKON1'' = trim (c_to_bin (S4_request 50)) \<and> 500 = - c_transfer_qty (S4_request 50)"
    using f by (simp add: S1_request_fields trim_S1)
  note rf = C6_lot_rows [OF hf, unfolded S1_rows(1)]
  from rf have lf: "length (LotMaster (snd ?f)) = 2" by simp
  from rf have "\<forall>i<2. QtyOnHand (LotMaster (snd ?f) ! i) = QtyOnHand ([S1_source, S1_destination] ! i) \<and>
       Qtycommitsales (LotMaster (snd ?f) ! i) =
         (if at_key ''INBC1403'' ''TFC1'' ''2600107-1'' ''K0802-4B'' ([S1_source, S1_destination] ! i)
          then Qtycommitsales ([S1_source, S1_destination] ! i) + 500
          else Qtycommitsales ([S1_source, S1_destination] ! i)) \<and>
       (at_key ''INBC1403'' ''TFC1'' ''2600107-1'' ''WHKON1'' ([S1_source, S1_destination] ! i) \<longrightarrow>
          LotMaster (snd ?f) ! i = [S1_source, S1_destination] ! i)"
    by simp
  from this [rule_format, of 0] this [rule_format, of 1] lf f
  have 1: "transfer ?T ?TS (S1_request 500) S1_db = Inr (fst ?f, snd ?f) \<and>
      length (LotMaster (snd ?f)) = 2 \<and> QtyOnHand (LotMaster (snd ?f) ! 0) = 975 \<and>
      Qtycommitsales (LotMaster (snd ?f) ! 0) = 550 \<and>
      LotMaster (snd ?f) ! 1 = S1_destination"
    by (simp add: S1_rows)
  have hc: "transfer ?T ?TS (S1_request 500) S1_db = Inr (fst ?c, snd ?c) \<and>
      ''INBC1403'' = trim (f_item_key (S1_request 500)) \<and>
      ''TFC1'' = trim (f_location (S1_request 500)) \<and>
      ''2600107-1'' = trim (f_lot_no (S1_request 500)) \<and>
      ''K0802-4B'' = trim (f_bin_from (S1_request 500)) \<and>
      ''WHKON1'' = trim (f_bin_to (S1_request 500)) \<and> - 50 = f_transfer_qty (S1_request 500)
    \<or> transferCommitted ?T ?TS (S4_request 50) S1_db = Inr (fst ?c, snd ?c) \<and>
      ''INBC1403'' = trim (c_item_key (S4_request 50)) \<and>
      ''TFC1'' = trim (c_location (S4_request 50)) \<and>
      ''2600107-1'' = trim (c_lot_no (S4_request 50)) \<and>
      ''K0802-4B'' = trim (c_source_bin (S4_request 50)) \<and>
      ''WHKON1'' = trim (c_to_bin (S4_request 50)) \<and> - 50 = - c_transfer_qty (S4_request 50)"
    using c by (simp add: S4_request_fields trim_S1)
  note rc = C6_lot_rows [OF hc, unfolded S1_rows(1)]
  from rc have lc: "length (LotMaster (snd ?c)) = 2" by simp
  from rc have "\<forall>i<2. QtyOnHand (LotMaster (snd ?c) ! i) = QtyOnHand ([S1_source, S1_destination] ! i) \<and>
       Qtycommitsales (LotMaster (snd ?c) ! i) =
         (if at_key ''INBC1403'' ''TFC1'' ''2600107-1'' ''K0802-4B'' ([S1_source, S1_destination] ! i)
          then Qtycommitsales ([S1_source, S1_destination] ! i) + - 50
          else Qtycommitsales ([S1_source, S1_destination] ! i)) \<and>
       (at_key ''INBC1403'' ''TFC1'' ''2600107-1'' ''WHKON1'' ([S1_source, S1_destination] ! i) \<longrightarrow>
          LotMaster (snd ?c) ! i = [S1_source, S1_destination] ! i)"
    by simp
  from this [rule_format, of 0] this [rule_format, of 1] lc c
  have 2: "transferCommitted ?T ?TS (S4_request 50) S1_db = Inr (fst ?c, snd ?c) \<and>
      length (LotMaster (snd ?c)) = 2 \<and> QtyOnHand (LotMaster (snd ?c) ! 0) = 975 \<and>
      Qtycommitsales (LotMaster (snd ?c) ! 0) = 0 \<and>
      LotMaster (snd ?c) ! 1 = S1_destination"
    by (simp add: S1_rows)
  from 1 2 show ?thesis by blast
qed

lemma digit_val_digit_char:
  assumes "d < 10"
  shows "digit_val (digit_char d) = d"
proof -
  from assms have "d \<in> {0, 1, 2, 3, 4, 5, 6, 7, 8, 9}"
    by auto
  then show ?thesis
    by (auto simp: digit_char_def digit_val_def)
qed

lemma undecimal_snoc: "undecimal (s @ [c]) = 10 * undecimal s + digit_val c"
  by (simp add: undecimal_def)

lemma undecimal_decimal: "undecimal (decimal n) = n"
proof (induction n rule: decimal.induct)
  case (1 n)
  show ?case
  proof (cases "n < 10")
    case True
    then show ?thesis
      by (simp add: decimal_small undecimal_def digit_val_digit_char)
  next
    case False
    then have "undecimal (decimal (n div 10)) = n div 10" using 1 by simp
    with False show ?thesis
      by (simp add: decimal_large undecimal_snoc digit_val_digit_char)
  qed
qed

lemma decimal_inj: "decimal m = decimal n \<Longrightarrow> m = n"
  by (metis undecimal_decimal)

lemma BT_inj: "inj (\<lambda>n. ''BT-'' @ decimal n)"
  by (auto simp: inj_def dest: decimal_inj)

lemma numbering_inv_init: "numbering_inv c0 (init c0)"
  by (simp add: numbering_inv_def init_def committed_counter_def)

lemma upt_snoc_doc:
  "map f [a ..< a + Suc k] = map f [a ..< a + k] @ [f (a + k)]"
  by simp

lemma inv_read:
  assumes "numbering_inv c0 s" and "pc s t = Read v"
  shows "holder s = Some t \<and> counter s = v"
  using assms unfolding numbering_inv_def by blast

lemma inv_bumped:
  assumes "numbering_inv c0 s" and "pc s t = Bumped v doc"
  shows "holder s = Some t \<and> counter s = v + 1 \<and> doc = ''BT-'' @ decimal (v + 1)"
  using assms unfolding numbering_inv_def by blast

lemma holder_only:
  assumes "numbering_inv c0 s" and "holder s = Some t"
  shows "\<forall>u. u \<noteq> t \<longrightarrow> (\<forall>w. pc s u \<noteq> Read w) \<and> (\<forall>w d. pc s u \<noteq> Bumped w d)"
  using assms inv_read inv_bumped by (metis option.inject)

lemma no_holder:
  assumes "numbering_inv c0 s" and "holder s = None"
  shows "\<forall>u. (\<forall>w. pc s u \<noteq> Read w) \<and> (\<forall>w d. pc s u \<noteq> Bumped w d)"
  using assms inv_read inv_bumped by (metis option.distinct(1))

lemma inv_log:
  assumes "numbering_inv c0 s"
  shows "map snd (issued_log s)
       = map (\<lambda>n. ''BT-'' @ decimal n) [c0 + 1 ..< c0 + 1 + length (issued_log s)]"
    and "\<forall>u d. pc s u = Issued d \<longrightarrow> (u, d) \<in> set (issued_log s)"
    and "committed_counter s = c0 + length (issued_log s)"
  using assms by (simp_all add: numbering_inv_def)

lemma numbering_invI:
  assumes "\<forall>t v. pc s t = Read v \<longrightarrow> holder s = Some t \<and> counter s = v"
    and "\<forall>t v doc. pc s t = Bumped v doc \<longrightarrow>
        holder s = Some t \<and> counter s = v + 1 \<and> doc = ''BT-'' @ decimal (v + 1)"
    and "\<forall>t. holder s = Some t \<longrightarrow> (\<exists>v. pc s t = Read v) \<or> (\<exists>v doc. pc s t = Bumped v doc)"
    and "committed_counter s = c0 + length (issued_log s)"
    and "map snd (issued_log s)
       = map (\<lambda>n. ''BT-'' @ decimal n) [c0 + 1 ..< c0 + 1 + length (issued_log s)]"
    and "\<forall>t doc. pc s t = Issued doc \<longrightarrow> (t, doc) \<in> set (issued_log s)"
  shows "numbering_inv c0 s"
  unfolding numbering_inv_def using assms by blast

lemma numbering_inv_fire:
  assumes "numbering_inv c0 s" and "fire e s = Some s'"
  shows "numbering_inv c0 s'"
proof (cases e)
  case (SelectForUpdate t)
  with assms(2) have h: "holder s = None" and w: "pc s t = Waiting"
    and s': "s' = s\<lparr>holder := Some t, pc := (pc s)(t := Read (counter s))\<rparr>"
    by (auto split: if_splits)
  note n = no_holder [OF assms(1) h]
  from inv_log(3) [OF assms(1)] h have cc: "counter s = c0 + length (issued_log s)"
    by (simp add: committed_counter_def)
  show ?thesis
  proof (rule numbering_invI)
    show "\<forall>u v. pc s' u = Read v \<longrightarrow> holder s' = Some u \<and> counter s' = v"
      using n by (simp add: s')
    show "\<forall>u v doc. pc s' u = Bumped v doc \<longrightarrow>
        holder s' = Some u \<and> counter s' = v + 1 \<and> doc = ''BT-'' @ decimal (v + 1)"
      using n by (simp add: s')
    show "\<forall>u. holder s' = Some u \<longrightarrow> (\<exists>v. pc s' u = Read v) \<or> (\<exists>v doc. pc s' u = Bumped v doc)"
      by (simp add: s')
    show "committed_counter s' = c0 + length (issued_log s')"
      using cc by (simp add: s' committed_counter_def)
    show "map snd (issued_log s')
       = map (\<lambda>n. ''BT-'' @ decimal n) [c0 + 1 ..< c0 + 1 + length (issued_log s')]"
      using inv_log(1) [OF assms(1)] by (simp add: s')
    show "\<forall>u doc. pc s' u = Issued doc \<longrightarrow> (u, doc) \<in> set (issued_log s')"
      using inv_log(2) [OF assms(1)] by (simp add: s')
  qed
next
  case (Update t)
  with assms(2) obtain v where r: "pc s t = Read v" and h: "holder s = Some t"
    and s': "s' = s\<lparr>counter := v + 1, pc := (pc s)(t := Bumped v (''BT-'' @ decimal (v + 1)))\<rparr>"
    by (auto simp: next_BT_def split: if_splits alloc.splits)
  note n = holder_only [OF assms(1) h]
  from inv_read [OF assms(1) r] have c: "counter s = v" by simp
  from inv_log(3) [OF assms(1)] h r c have cc: "v = c0 + length (issued_log s)"
    by (simp add: committed_counter_def)
  show ?thesis
  proof (rule numbering_invI)
    show "\<forall>u v. pc s' u = Read v \<longrightarrow> holder s' = Some u \<and> counter s' = v"
      using n by (simp add: s')
    show "\<forall>u v doc. pc s' u = Bumped v doc \<longrightarrow>
        holder s' = Some u \<and> counter s' = v + 1 \<and> doc = ''BT-'' @ decimal (v + 1)"
      using n h by (simp add: s')
    show "\<forall>u. holder s' = Some u \<longrightarrow> (\<exists>v. pc s' u = Read v) \<or> (\<exists>v doc. pc s' u = Bumped v doc)"
      using h by (simp add: s')
    show "committed_counter s' = c0 + length (issued_log s')"
      using cc h by (simp add: s' committed_counter_def)
    show "map snd (issued_log s')
       = map (\<lambda>n. ''BT-'' @ decimal n) [c0 + 1 ..< c0 + 1 + length (issued_log s')]"
      using inv_log(1) [OF assms(1)] by (simp add: s')
    show "\<forall>u doc. pc s' u = Issued doc \<longrightarrow> (u, doc) \<in> set (issued_log s')"
      using inv_log(2) [OF assms(1)] r by (simp add: s')
  qed
next
  case (Commit t)
  with assms obtain v doc where b: "pc s t = Bumped v doc" and h: "holder s = Some t"
    and s': "s' = s\<lparr>holder := None, pc := (pc s)(t := Issued doc),
                     issued_log := issued_log s @ [(t, doc)]\<rparr>"
    by (auto split: if_splits alloc.splits)
  note n = holder_only [OF assms(1) h]
  from inv_bumped [OF assms(1) b] have doc: "doc = ''BT-'' @ decimal (v + 1)"
    and c: "counter s = v + 1"
    by simp_all
  from inv_log(3) [OF assms(1)] b h have cc: "v = c0 + length (issued_log s)"
    by (simp add: committed_counter_def)
  show ?thesis
  proof (rule numbering_invI)
    show "\<forall>u v. pc s' u = Read v \<longrightarrow> holder s' = Some u \<and> counter s' = v"
      using n by (simp add: s')
    show "\<forall>u v doc. pc s' u = Bumped v doc \<longrightarrow>
        holder s' = Some u \<and> counter s' = v + 1 \<and> doc = ''BT-'' @ decimal (v + 1)"
      using n by (simp add: s')
    show "\<forall>u. holder s' = Some u \<longrightarrow> (\<exists>v. pc s' u = Read v) \<or> (\<exists>v doc. pc s' u = Bumped v doc)"
      by (simp add: s')
    show "committed_counter s' = c0 + length (issued_log s')"
      using c cc by (simp add: s' committed_counter_def)
    show "map snd (issued_log s')
       = map (\<lambda>n. ''BT-'' @ decimal n) [c0 + 1 ..< c0 + 1 + length (issued_log s')]"
      using inv_log(1) [OF assms(1)] doc cc by (simp add: s')
    show "\<forall>u doc. pc s' u = Issued doc \<longrightarrow> (u, doc) \<in> set (issued_log s')"
      using inv_log(2) [OF assms(1)] by (simp add: s')
  qed
next
  case (Rollback t)
  with assms(2) have h: "holder s = Some t"
    by (auto split: if_splits alloc.splits)
  note n = holder_only [OF assms(1) h]
  from Rollback assms(2) h obtain c where s': "s' = s\<lparr>counter := c, holder := None, pc := (pc s)(t := Aborted)\<rparr>"
    and c: "c = committed_counter s"
    by (auto simp: committed_counter_def split: if_splits alloc.splits)
  show ?thesis
  proof (rule numbering_invI)
    show "\<forall>u v. pc s' u = Read v \<longrightarrow> holder s' = Some u \<and> counter s' = v"
      using n by (simp add: s')
    show "\<forall>u v doc. pc s' u = Bumped v doc \<longrightarrow>
        holder s' = Some u \<and> counter s' = v + 1 \<and> doc = ''BT-'' @ decimal (v + 1)"
      using n by (simp add: s')
    show "\<forall>u. holder s' = Some u \<longrightarrow> (\<exists>v. pc s' u = Read v) \<or> (\<exists>v doc. pc s' u = Bumped v doc)"
      by (simp add: s')
    show "committed_counter s' = c0 + length (issued_log s')"
      using inv_log(3) [OF assms(1)] c by (simp add: s' committed_counter_def)
    show "map snd (issued_log s')
       = map (\<lambda>n. ''BT-'' @ decimal n) [c0 + 1 ..< c0 + 1 + length (issued_log s')]"
      using inv_log(1) [OF assms(1)] by (simp add: s')
    show "\<forall>u doc. pc s' u = Issued doc \<longrightarrow> (u, doc) \<in> set (issued_log s')"
      using inv_log(2) [OF assms(1)] by (simp add: s')
  qed
qed

lemma numbering_inv_run:
  "numbering_inv c0 s \<Longrightarrow> run es s = Some s' \<Longrightarrow> numbering_inv c0 s'"
proof (induction es arbitrary: s)
  case Nil
  then show ?case by simp
next
  case (Cons e es)
  then show ?case
    by (auto split: option.splits dest: numbering_inv_fire)
qed

lemma transfer_document_no:
  assumes "transfer today ts req d = Inr (res, d') \<or> transferCommitted today ts creq d = Inr (res, d')"
  shows "document_no res = ''BT-'' @ decimal (SeqNum d + 1) \<and> SeqNum d' = SeqNum d + 1"
proof -
  from assms have "\<exists>delta src bin_to q user.
      commit_transfer delta src bin_to q user today ts d = (res, d')"
  proof
    assume "transfer today ts req d = Inr (res, d')"
    from transfer_Inr [OF this] show ?thesis by blast
  next
    assume "transferCommitted today ts creq d = Inr (res, d')"
    from transferCommitted_Inr [OF this] show ?thesis by blast
  qed
  then obtain delta src bin_to q user where
    c: "commit_transfer delta src bin_to q user today ts d = (res, d')"
    by blast
  then have "res = fst (commit_transfer delta src bin_to q user today ts d)"
    and "d' = snd (commit_transfer delta src bin_to q user today ts d)"
    by simp_all
  then show ?thesis
    by (simp add: commit_transfer_result commit_transfer_db)
qed

lemma run_log:
  assumes "run es (init c0) = Some s"
  shows "numbering_inv c0 s"
  using numbering_inv_run [OF numbering_inv_init assms] .

lemma distinct_docs:
  assumes "numbering_inv c0 s"
  shows "distinct (map snd (issued_log s))"
proof -
  have "distinct (map (\<lambda>n. ''BT-'' @ decimal n) [c0 + 1 ..< c0 + 1 + length (issued_log s)])"
    by (intro iffD2 [OF distinct_map] conjI distinct_upt inj_on_subset [OF BT_inj]) simp
  with inv_log(1) [OF assms] show ?thesis by simp
qed

lemma nth_doc:
  assumes "numbering_inv c0 s" and "i < length (issued_log s)"
  shows "snd (issued_log s ! i) = ''BT-'' @ decimal (c0 + 1 + i)"
proof -
  have "snd (issued_log s ! i) = map snd (issued_log s) ! i"
    using assms(2) by simp
  also have "\<dots> = map (\<lambda>n. ''BT-'' @ decimal n) [c0 + 1 ..< c0 + 1 + length (issued_log s)] ! i"
    using inv_log(1) [OF assms(1)] by simp
  also have "\<dots> = ''BT-'' @ decimal (c0 + 1 + i)"
    using assms(2) by (simp del: upt_Suc)
  finally show ?thesis .
qed

lemma issued_differ:
  assumes "numbering_inv c0 s" and "t \<noteq> t'" and "pc s t = Issued doc" and "pc s t' = Issued doc'"
  shows "doc \<noteq> doc'"
proof
  assume e: "doc = doc'"
  from inv_log(2) [OF assms(1)] assms(3,4) e
  have m: "(t, doc) \<in> set (issued_log s)" "(t', doc) \<in> set (issued_log s)"
    by simp_all
  from distinct_docs [OF assms(1)] have "inj_on snd (set (issued_log s))"
    by (simp add: distinct_map)
  from inj_onD [OF this _ m] have "(t, doc) = (t', doc)"
    by simp
  with assms(2) show False by simp
qed

lemma serve_docs:
  "fst (serve rs d) = map (\<lambda>n. ''BT-'' @ decimal n)
       [SeqNum d + 1 ..< SeqNum d + 1 + length (fst (serve rs d))] \<and>
   SeqNum (snd (serve rs d)) = SeqNum d + length (fst (serve rs d))"
proof (induction rs arbitrary: d)
  case Nil
  show ?case by simp
next
  case (Cons x rs)
  obtain today ts r where x: "x = (today, ts, r)" by (cases x)
  let ?o = "case r of Free q \<Rightarrow> transfer today ts q d
                    | Committed q \<Rightarrow> transferCommitted today ts q d"
  show ?case
  proof (cases ?o)
    case (Inl e)
    then have "serve (x # rs) d = serve rs d" by (simp add: x)
    with Cons.IH [of d] show ?thesis by simp
  next
    case (Inr p)
    obtain res d' where p: "p = (res, d')" by (cases p)
    from Inr p have "(\<exists>q. transfer today ts q d = Inr (res, d')) \<or>
        (\<exists>q. transferCommitted today ts q d = Inr (res, d'))"
      by (cases r) auto
    then have n: "document_no res = ''BT-'' @ decimal (SeqNum d + 1) \<and> SeqNum d' = SeqNum d + 1"
      using transfer_document_no by blast
    from Inr p have s: "serve (x # rs) d = (document_no res # fst (serve rs d'), snd (serve rs d'))"
      by (simp add: x)
    let ?k = "length (fst (serve rs d'))"
    have "[SeqNum d + 1 ..< SeqNum d + 1 + Suc ?k] = (SeqNum d + 1) # [SeqNum d' + 1 ..< SeqNum d' + 1 + ?k]"
      using n by (simp add: upt_conv_Cons del: upt_Suc)
    then have "map (\<lambda>n. ''BT-'' @ decimal n) [SeqNum d + 1 ..< SeqNum d + 1 + Suc ?k]
        = document_no res # fst (serve rs d')"
      using n Cons.IH [of d'] by simp
    moreover have "SeqNum (snd (serve rs d')) = SeqNum d + Suc ?k"
      using n Cons.IH [of d'] by simp
    ultimately show ?thesis
      unfolding s by simp
  qed
qed

text \<open>
  Claim C9. A successful transfer on either path returns the document number \<open>BT-n\<close>
  where \<open>n\<close> is the value of the \<open>BT\<close> counter after its increment, and leaves the
  counter at \<open>n\<close>; requests served one after the other from a store with counter
  \<open>k\<close> give their successful transfers the numbers \<open>BT-(k+1)\<close>, \<open>BT-(k+2)\<close>, ...
  in order. In every run of concurrent transactions from the counter value
  \<open>c0\<close>, in any interleaving of their steps, the document numbers issued are, in the
  order of their commits, \<open>BT-(c0+1)\<close>, \<open>BT-(c0+2)\<close>, ...: strictly increasing
  and never reused; the committed counter stands at the last number issued; two
  different transactions never hold the same document number; and the number a
  transaction is about to commit is the value of the counter after its increment.
\<close>

theorem C9_document_numbers:
  "(transfer today ts req d = Inr (res, d') \<or> transferCommitted today ts creq d = Inr (res, d') \<longrightarrow>
      document_no res = ''BT-'' @ decimal (SeqNum d + 1) \<and> SeqNum d' = SeqNum d + 1) \<and>
   fst (serve rs d0) = map (\<lambda>n. ''BT-'' @ decimal n)
       [SeqNum d0 + 1 ..< SeqNum d0 + 1 + length (fst (serve rs d0))] \<and>
   SeqNum (snd (serve rs d0)) = SeqNum d0 + length (fst (serve rs d0)) \<and>
   (run es (init c0) = Some s \<longrightarrow>
      (\<forall>i<length (issued_log s). snd (issued_log s ! i) = ''BT-'' @ decimal (c0 + 1 + i)) \<and>
      committed_counter s = c0 + length (issued_log s) \<and>
      distinct (map snd (issued_log s)) \<and>
      (\<forall>t t' doc doc'. t \<noteq> t' \<and> pc s t = Issued doc \<and> pc s t' = Issued doc' \<longrightarrow> doc \<noteq> doc') \<and>
      (\<forall>t v doc. pc s t = Bumped v doc \<longrightarrow>
         counter s = v + 1 \<and> doc = ''BT-'' @ decimal (counter s)))"
proof (intro conjI impI)
  assume "transfer today ts req d = Inr (res, d') \<or> transferCommitted today ts creq d = Inr (res, d')"
  from transfer_document_no [OF this]
  show "document_no res = ''BT-'' @ decimal (SeqNum d + 1)" and "SeqNum d' = SeqNum d + 1"
    by simp_all
next
  show "fst (serve rs d0) = map (\<lambda>n. ''BT-'' @ decimal n)
       [SeqNum d0 + 1 ..< SeqNum d0 + 1 + length (fst (serve rs d0))]"
    and "SeqNum (snd (serve rs d0)) = SeqNum d0 + length (fst (serve rs d0))"
    using serve_docs [of rs d0] by simp_all
next
  assume r: "run es (init c0) = Some s"
  note i = run_log [OF r]
  show "\<forall>i<length (issued_log s). snd (issued_log s ! i) = ''BT-'' @ decimal (c0 + 1 + i)"
    using nth_doc [OF i] by blast
  show "committed_counter s = c0 + length (issued_log s)"
    using inv_log(3) [OF i] .
  show "distinct (map snd (issued_log s))"
    using distinct_docs [OF i] .
  show "\<forall>t t' doc doc'. t \<noteq> t' \<and> pc s t = Issued doc \<and> pc s t' = Issued doc' \<longrightarrow> doc \<noteq> doc'"
    using issued_differ [OF i] by blast
  show "\<forall>t v doc. pc s t = Bumped v doc \<longrightarrow>
         counter s = v + 1 \<and> doc = ''BT-'' @ decimal (counter s)"
    using inv_bumped [OF i] by metis
qed

lemma S9_run:
  "\<exists>s. run S9_schedule (init 26112173) = Some s \<and>
       issued_log s = [(1, ''BT-26112174''), (3, ''BT-26112175'')] \<and>
       counter s = 26112175 \<and> holder s = None"
  by (simp add: S9_schedule_def init_def next_BT_def decimal_small decimal_large
      digit_char_def)

theorem C9_document_numbers_witness:
  "(\<exists>res d'. transfer ''2026-02-16 00:00:00'' ''2026-02-16T08:36:02Z'' (S1_request 500) S1_db
       = Inr (res, d') \<and> document_no res = ''BT-26112174'' \<and> SeqNum d' = 26112174) \<and>
   (\<exists>s. run S9_schedule (init 26112173) = Some s \<and>
       issued_log s = [(1, ''BT-26112174''), (3, ''BT-26112175'')] \<and>
       distinct (map snd (issued_log s)) \<and> committed_counter s = 26112175)"
proof -
  let ?f = "commit_transfer 500 S1_source ''WHKON1'' 500 ''DECHAWAT''
      ''2026-02-16 00:00:00'' ''2026-02-16T08:36:02Z'' S1_db"
  have t: "transfer ''2026-02-16 00:00:00'' ''2026-02-16T08:36:02Z'' (S1_request 500) S1_db
       = Inr (fst ?f, snd ?f)"
    by (simp add: S1_transfer)
  have q: "SeqNum S1_db = 26112173"
    by (simp add: S1_db_def)
  obtain s where r: "run S9_schedule (init 26112173) = Some s"
    and l: "issued_log s = [(1, ''BT-26112174''), (3, ''BT-26112175'')]"
    using S9_run by blast
  note c = C9_document_numbers [where today = "''2026-02-16 00:00:00''"
      and ts = "''2026-02-16T08:36:02Z''" and req = "S1_request 500" and d = S1_db
      and res = "fst ?f" and d' = "snd ?f" and creq = "S4_request 50" and es = S9_schedule
      and ?c0.0 = 26112173 and s = s]
  from c t have "document_no (fst ?f) = ''BT-'' @ decimal (SeqNum S1_db + 1) \<and>
      SeqNum (snd ?f) = SeqNum S1_db + 1"
    by blast
  then have 1: "document_no (fst ?f) = ''BT-26112174'' \<and> SeqNum (snd ?f) = 26112174"
    unfolding q by (simp add: decimal_S1)
  from c r have "distinct (map snd (issued_log s)) \<and>
      committed_counter s = 26112173 + length (issued_log s)"
    by blast
  then have 2: "distinct (map snd (issued_log s)) \<and> committed_counter s = 26112175"
    unfolding l by simp
  from t 1 have "\<exists>res d'. transfer ''2026-02-16 00:00:00'' ''2026-02-16T08:36:02Z''
        (S1_request 500) S1_db = Inr (res, d') \<and>
      document_no res = ''BT-26112174'' \<and> SeqNum d' = 26112174"
    by blast
  moreover from r l 2 have "\<exists>s. run S9_schedule (init 26112173) = Some s \<and>
       issued_log s = [(1, ''BT-26112174''), (3, ''BT-26112175'')] \<and>
       distinct (map snd (issued_log s)) \<and> committed_counter s = 26112175"
    by blast
  ultimately show ?thesis by blast
qed

lemma S4_statuses:
  "source_lot_status (fst (commit_transfer delta S1_source ''WHKON1'' q user today ts S1_db)) = Some ''P''"
  "destination_lot_status (fst (commit_transfer delta S1_source ''WHKON1'' q user today ts S1_db)) = Some ''C''"
  by (simp_all add: commit_transfer_result)
    (simp_all add: S1_source_def S1_lot_row destination_status_def S1_destination_def)

lemma transfer_statuses:
  assumes "transfer today ts req d = Inr (res, d')"
  shows "\<exists>src. lot_row d (trim (f_item_key req)) (trim (f_location req)) (trim (f_lot_no req))
            (trim (f_bin_from req)) = Some src \<and>
      source_lot_status res = Some (LotStatus src) \<and>
      destination_lot_status res =
        Some (destination_status src
                (lot_row d (trim (f_item_key req)) (trim (f_location req)) (trim (f_lot_no req))
                   (trim (f_bin_to req))))"
proof -
  from transfer_Inr [OF assms] obtain src where
    g: "gate d (trim (f_item_key req)) (trim (f_location req)) (trim (f_lot_no req))
              (trim (f_bin_from req)) (trim (f_bin_to req)) = Inr src"
    and c: "commit_transfer (f_transfer_qty req) src (trim (f_bin_to req)) (f_transfer_qty req)
              (f_user_id req) today ts d = (res, d')"
    by blast
  from c have r: "res = fst (commit_transfer (f_transfer_qty req) src (trim (f_bin_to req))
      (f_transfer_qty req) (f_user_id req) today ts d)"
    by simp
  from gate_Inr(3) [OF g] have k: "ItemKey src = trim (f_item_key req)"
    "LocationKey src = trim (f_location req)" "LotNo src = trim (f_lot_no req)"
    by (simp_all add: at_key_def)
  show ?thesis
    using gate_Inr(1) [OF g] unfolding r commit_transfer_result by (simp add: k)
qed

lemma digit_char_digit: "digit_char d \<in> set ''0123456789''"
  unfolding digit_char_def by (rule nth_mem) simp

lemma decimal_digits: "set (decimal n) \<subseteq> set ''0123456789''"
proof (induction n rule: decimal.induct)
  case (1 n)
  show ?case
  proof (cases "n < 10")
    case True
    then show ?thesis using digit_char_digit [of n] by (simp add: decimal_small)
  next
    case False
    with 1 have "set (decimal (n div 10)) \<subseteq> set ''0123456789''" by simp
    with False show ?thesis using digit_char_digit [of "n mod 10"]
      by (simp add: decimal_large)
  qed
qed

lemma decimal_2digits:
  assumes "10 \<le> n" and "n < 100"
  shows "decimal n = [digit_char (n div 10), digit_char (n mod 10)]"
proof -
  from assms have "n div 10 < 10" by simp
  with assms(1) show ?thesis by (simp add: decimal_large decimal_small)
qed

lemma decimal_4digits:
  assumes "1000 \<le> n" and "n \<le> 9999"
  shows "decimal n = [digit_char (n div 1000), digit_char (n div 100 mod 10),
                      digit_char (n div 10 mod 10), digit_char (n mod 10)]"
proof -
  have a: "10 \<le> n" "10 \<le> n div 10" using assms by simp_all
  have b: "10 \<le> n div 10 div 10" "n div 10 div 10 < 100" using assms by simp_all
  have c: "n div 10 div 10 = n div 100" "n div 100 div 10 = n div 1000"
    by (simp_all add: div_mult2_eq [symmetric])
  show ?thesis
    using decimal_2digits [OF b] a
    by (simp add: decimal_large [of n] decimal_large [of "n div 10"] c)
qed

lemma pad2_decimal:
  assumes "n < 100"
  shows "padStart_with (CHR ''0'') (decimal n) 2 = [digit_char (n div 10), digit_char (n mod 10)]"
proof (cases "n < 10")
  case True
  then show ?thesis by (simp add: decimal_small padStart_with_def digit_char_def)
next
  case False
  with assms show ?thesis by (simp add: decimal_2digits padStart_with_def)
qed

lemma formattedDate_DD_MM_YY:
  assumes "1000 \<le> getFullYear now" and "getFullYear now \<le> 9999"
    and "getDate now \<le> 31" and "getMonth now \<le> 11"
  shows "formattedDate now =
    [digit_char (getDate now div 10), digit_char (getDate now mod 10), CHR ''-'',
     digit_char ((getMonth now + 1) div 10), digit_char ((getMonth now + 1) mod 10), CHR ''-'',
     digit_char (getFullYear now div 10 mod 10), digit_char (getFullYear now mod 10)]"
proof -
  have "getDate now < 100" "getMonth now + 1 < 100" using assms by simp_all
  then show ?thesis
    by (simp add: formattedDate_def pad2_decimal decimal_4digits [OF assms(1,2)])
qed

lemma three_digits: "100 * (n div 100 mod 10) + (10 * (n div 10 mod 10) + n mod 10) = n mod 1000"
  for n :: nat
proof -
  have "n mod (100 * 10) = 100 * (n div 100 mod 10) + n mod 100"
    by (rule mod_mult2_eq)
  moreover have "n mod (10 * 10) = 10 * (n div 10 mod 10) + n mod 10"
    by (rule mod_mult2_eq)
  ultimately show ?thesis by simp
qed

lemma undecimal_3:
  "undecimal [digit_char (n div 100 mod 10), digit_char (n div 10 mod 10), digit_char (n mod 10)]
     = n mod 1000"
proof -
  have "undecimal [digit_char (n div 100 mod 10), digit_char (n div 10 mod 10), digit_char (n mod 10)]
      = 100 * (n div 100 mod 10) + (10 * (n div 10 mod 10) + n mod 10)"
    by (simp add: undecimal_def digit_val_digit_char)
  then show ?thesis by (simp only: three_digits)
qed

lemma toFixed3_shape:
  assumes "\<bar>x\<bar> < 10 ^ 21"
  shows "\<exists>ip fp. toFixed3 x = Some (ip @ ''.'' @ fp) \<and>
      ip = (if x < 0 then ''-'' else []) @ decimal (nat \<lfloor>\<bar>x\<bar> * 1000 + 1 / 2\<rfloor> div 1000) \<and>
      length fp = 3 \<and> set fp \<subseteq> set ''0123456789'' \<and>
      undecimal fp = nat \<lfloor>\<bar>x\<bar> * 1000 + 1 / 2\<rfloor> mod 1000 \<and> CHR ''.'' \<notin> set ip"
proof -
  let ?n = "nat \<lfloor>\<bar>x\<bar> * 1000 + 1 / 2\<rfloor>"
  let ?ip = "(if x < 0 then ''-'' else []) @ decimal (?n div 1000)"
  let ?fp = "[digit_char (?n div 100 mod 10), digit_char (?n div 10 mod 10), digit_char (?n mod 10)]"
  have 1: "toFixed3 x = Some (?ip @ ''.'' @ ?fp)"
    using assms by (simp add: toFixed3_def Let_def)
  have 2: "set ?fp \<subseteq> set ''0123456789''"
    using digit_char_digit by simp
  have 3: "undecimal ?fp = ?n mod 1000"
    by (rule undecimal_3)
  have 4: "CHR ''.'' \<notin> set ?ip"
    using decimal_digits [of "?n div 1000"] by auto
  have 5: "length ?fp = 3" by simp
  from 1 2 3 4 5 show ?thesis by blast
qed

lemma formatLotStatus_cases:
  "(dst = None \<or> dst = Some [] \<or> dst = Some st \<longrightarrow>
      formatLotStatus st dst = (if st = [] then ''N/A'' else st)) \<and>
   (\<forall>d. dst = Some d \<and> d \<noteq> [] \<and> d \<noteq> st \<longrightarrow> formatLotStatus st dst = st @ '' - '' @ d)"
  by (auto simp: formatLotStatus_def or_empty_def)

lemma floor_half: "\<lfloor>(of_nat k :: rat) + 1 / 2\<rfloor> = int k"
  by (rule floor_unique) simp_all

lemma toFixed3_nat:
  assumes "m < 10 ^ 21"
  shows "toFixed3 (of_nat m) = Some (decimal m @ ''.000'')"
proof -
  have "(of_nat m :: rat) < of_nat (10 ^ 21)"
    using assms by (simp only: of_nat_less_iff)
  then have a: "\<not> (10 :: rat) ^ 21 \<le> \<bar>of_nat m\<bar>" by simp
  have "\<lfloor>\<bar>of_nat m :: rat\<bar> * 1000 + 1 / 2\<rfloor> = int (m * 1000)"
    using floor_half [of "m * 1000"] by simp
  then have n: "nat \<lfloor>\<bar>of_nat m :: rat\<bar> * 1000 + 1 / 2\<rfloor> = m * 1000" by simp
  have d: "m * 1000 div 1000 = m" "m * 1000 div 100 mod 10 = 0" "m * 1000 div 10 mod 10 = 0"
    "m * 1000 mod 10 = 0"
    by simp_all
  show ?thesis
    unfolding toFixed3_def Let_def n d using a by (simp add: digit_char_def)
qed

lemma toFixed3_S1: "toFixed3 975 = Some ''975.000''" "toFixed3 500 = Some ''500.000''"
  using toFixed3_nat [of 975] toFixed3_nat [of 500]
  by (simp_all add: decimal_small decimal_large digit_char_def)

lemma formattedDate_S: "formattedDate (day_S 16) = ''16-02-26''" "formattedDate (day_S 17) = ''17-02-26''"
  by (simp_all add: formattedDate_def day_S_def padStart_with_def decimal_small decimal_large
      digit_char_def)

lemma S1_reportLines:
  "reportLines (day_S 16) S1_details (lot_S 50) (comp_S 50 (Some 500)) =
     Some [''Bin Transfer Report                    Date:16-02-26'',
           rule_line,
           ''Doc No         Item Key          Location Result'',
           rule_line,
           ''BT-26112174    INBC1403          TFC1     Success'',
           rule_line,
           ''Bins/Lots from where material is transferred:'',
           ''LotNo           BinFrom          BinTo           Qtyonhand    QtyTransfer  Status'',
           rule_line,
           ''2600107-1       K0802-4B         WHKON1               975.000     500.000  P - C      '',
           [],
           ''Remarks: -'',
           ''Reference No: -'']"
  by (simp add: reportLines_def S1_details_def lot_S_def comp_S_def toFixed3_S1 formattedDate_S
      formatLotStatus_def or_empty_def padEnd_def padStart_def padStart_with_def or_dash_def)
    (simp add: eval_nat_numeral)

text \<open>
  Claim C8, as stated, fails twice. A lot without a status, printed with no destination
  status, shows \<open>N/A\<close>, which is not its source status. And the date on the receipt
  is the clock's at the time of printing: the same transaction details, lot and form
  give receipts with different first lines on two days.
\<close>

theorem C8_counterexample:
  "formatLotStatus (lotStatus ((lot_S 50)\<lparr>lotStatus := []\<rparr>)) None = ''N/A'' \<and>
   lotStatus ((lot_S 50)\<lparr>lotStatus := []\<rparr>) \<noteq> ''N/A'' \<and>
   map_option hd (reportLines (day_S 16) S1_details (lot_S 50) (comp_S 50 (Some 500)))
     = Some ''Bin Transfer Report                    Date:16-02-26'' \<and>
   map_option hd (reportLines (day_S 17) S1_details (lot_S 50) (comp_S 50 (Some 500)))
     = Some ''Bin Transfer Report                    Date:17-02-26''"
  by (simp add: formatLotStatus_def reportLines_def S1_details_def lot_S_def toFixed3_S1
      formattedDate_S)

text \<open>
  Claim C8, amended. The receipt is a function of the transaction details, the lot,
  the form's remark and reference and the clock's date at printing. For quantities
  below \<open>10\<^sup>2\<^sup>1\<close> in absolute value it is the thirteen report lines joined by line
  feeds; the first line ends with the date, the tenth carries the on-hand and transfer
  quantities and the lot status. A quantity is printed as its sign, the integer part
  and exactly three decimals of the nearest multiple of \<open>0.001\<close>. The date is
  \<open>DD-MM-YY\<close> for a year of four digits. The lot status is the source status alone
  (or \<open>N/A\<close> when that is empty) when the destination status is missing, empty or
  equal to it, and \<open>source - destination\<close> when the two differ.
\<close>

theorem C8_receipt:
  "(\<bar>qtyOnHand lot\<bar> < 10 ^ 21 \<and> \<bar>td_transfer_qty td\<bar> < 10 ^ 21 \<longrightarrow>
      (\<exists>ls qoh qt.
         reportLines now td lot fv = Some ls \<and>
         printTransferReceipt now td lot fv = Some (join_lines ls) \<and> length ls = 13 \<and>
         toFixed3 (qtyOnHand lot) = Some qoh \<and> toFixed3 (td_transfer_qty td) = Some qt \<and>
         ls ! 0 = ''Bin Transfer Report                    Date:'' @ formattedDate now \<and>
         ls ! 9 = padEnd (td_lot_no td) 16 @ padEnd (td_bin_from td) 17 @
                  padEnd (td_bin_to td) 16 @ padStart qoh 12 @ '' '' @ padStart qt 11 @ ''  '' @
                  padEnd (formatLotStatus (lotStatus lot) (td_destination_lot_status td)) 11)) \<and>
   (\<bar>x\<bar> < 10 ^ 21 \<longrightarrow>
      (\<exists>ip fp. toFixed3 x = Some (ip @ ''.'' @ fp) \<and>
         ip = (if x < 0 then ''-'' else []) @ decimal (nat \<lfloor>\<bar>x\<bar> * 1000 + 1 / 2\<rfloor> div 1000) \<and>
         length fp = 3 \<and> set fp \<subseteq> set ''0123456789'' \<and>
         undecimal fp = nat \<lfloor>\<bar>x\<bar> * 1000 + 1 / 2\<rfloor> mod 1000 \<and> CHR ''.'' \<notin> set ip)) \<and>
   (1000 \<le> getFullYear now \<and> getFullYear now \<le> 9999 \<and> getDate now \<le> 31 \<and>
    getMonth now \<le> 11 \<longrightarrow>
      formattedDate now =
        [digit_char (getDate now div 10), digit_char (getDate now mod 10), CHR ''-'',
         digit_char ((getMonth now + 1) div 10), digit_char ((getMonth now + 1) mod 10),
         CHR ''-'',
         digit_char (getFullYear now div 10 mod 10), digit_char (getFullYear now mod 10)]) \<and>
   (dst = None \<or> dst = Some [] \<or> dst = Some st \<longrightarrow>
      formatLotStatus st dst = (if st = [] then ''N/A'' else st)) \<and>
   (\<forall>d. dst = Some d \<and> d \<noteq> [] \<and> d \<noteq> st \<longrightarrow> formatLotStatus st dst = st @ '' - '' @ d)"
proof (intro conjI)
  show "\<bar>qtyOnHand lot\<bar> < 10 ^ 21 \<and> \<bar>td_transfer_qty td\<bar> < 10 ^ 21 \<longrightarrow>
      (\<exists>ls qoh qt.
         reportLines now td lot fv = Some ls \<and>
         printTransferReceipt now td lot fv = Some (join_lines ls) \<and> length ls = 13 \<and>
         toFixed3 (qtyOnHand lot) = Some qoh \<and> toFixed3 (td_transfer_qty td) = Some qt \<and>
         ls ! 0 = ''Bin Transfer Report                    Date:'' @ formattedDate now \<and>
         ls ! 9 = padEnd (td_lot_no td) 16 @ padEnd (td_bin_from td) 17 @
                  padEnd (td_bin_to td) 16 @ padStart qoh 12 @ '' '' @ padStart qt 11 @ ''  '' @
                  padEnd (formatLotStatus (lotStatus lot) (td_destination_lot_status td)) 11)"
  proof
    assume a: "\<bar>qtyOnHand lot\<bar> < 10 ^ 21 \<and> \<bar>td_transfer_qty td\<bar> < 10 ^ 21"
    from a toFixed3_shape [of "qtyOnHand lot"] obtain qoh where
      q1: "toFixed3 (qtyOnHand lot) = Some qoh"
      by auto
    from a toFixed3_shape [of "td_transfer_qty td"] obtain qt where
      q2: "toFixed3 (td_transfer_qty td) = Some qt"
      by auto
    let ?ls = "[''Bin Transfer Report                    Date:'' @ formattedDate now,
              rule_line,
              ''Doc No         Item Key          Location Result'',
              rule_line,
              padEnd (td_document_no td) 15 @ padEnd (itemKey lot) 18 @
                padEnd (location lot) 9 @ ''Success'',
              rule_line,
              ''Bins/Lots from where material is transferred:'',
              ''LotNo           BinFrom          BinTo           Qtyonhand    QtyTransfer  Status'',
              rule_line,
              padEnd (td_lot_no td) 16 @ padEnd (td_bin_from td) 17 @
                padEnd (td_bin_to td) 16 @ padStart qoh 12 @ '' '' @
                padStart qt 11 @ ''  '' @
                padEnd (formatLotStatus (lotStatus lot) (td_destination_lot_status td)) 11,
              [],
              ''Remarks: '' @ or_dash (remarks fv),
              ''Reference No: '' @ or_dash (referenced fv)]"
    have l: "reportLines now td lot fv = Some ?ls"
      unfolding reportLines_def q1 q2 Let_def by (simp only: prod.case option.case)
    have p: "printTransferReceipt now td lot fv = Some (join_lines ?ls)"
      unfolding printTransferReceipt_def l by (simp only: option.map)
    have ln: "length ?ls = 13" by simp
    have l0: "?ls ! 0 = ''Bin Transfer Report                    Date:'' @ formattedDate now"
      by simp
    have l9: "?ls ! 9 = padEnd (td_lot_no td) 16 @ padEnd (td_bin_from td) 17 @
                  padEnd (td_bin_to td) 16 @ padStart qoh 12 @ '' '' @ padStart qt 11 @ ''  '' @
                  padEnd (formatLotStatus (lotStatus lot) (td_destination_lot_status td)) 11"
      by simp
    show "\<exists>ls qoh qt.
         reportLines now td lot fv = Some ls \<and>
         printTransferReceipt now td lot fv = Some (join_lines ls) \<and> length ls = 13 \<and>
         toFixed3 (qtyOnHand lot) = Some qoh \<and> toFixed3 (td_transfer_qty td) = Some qt \<and>
         ls ! 0 = ''Bin Transfer Report                    Date:'' @ formattedDate now \<and>
         ls ! 9 = padEnd (td_lot_no td) 16 @ padEnd (td_bin_from td) 17 @
                  padEnd (td_bin_to td) 16 @ padStart qoh 12 @ '' '' @ padStart qt 11 @ ''  '' @
                  padEnd (formatLotStatus (lotStatus lot) (td_destination_lot_status td)) 11"
      by (intro exI [of _ ?ls] exI [of _ qoh] exI [of _ qt] conjI l p ln q1 q2 l0 l9)
  qed
  show "\<bar>x\<bar> < 10 ^ 21 \<longrightarrow>
      (\<exists>ip fp. toFixed3 x = Some (ip @ ''.'' @ fp) \<and>
         ip = (if x < 0 then ''-'' else []) @ decimal (nat \<lfloor>\<bar>x\<bar> * 1000 + 1 / 2\<rfloor> div 1000) \<and>
         length fp = 3 \<and> set fp \<subseteq> set ''0123456789'' \<and>
         undecimal fp = nat \<lfloor>\<bar>x\<bar> * 1000 + 1 / 2\<rfloor> mod 1000 \<and> CHR ''.'' \<notin> set ip)"
    by (rule impI) (rule toFixed3_shape)
  show "1000 \<le> getFullYear now \<and> getFullYear now \<le> 9999 \<and> getDate now \<le> 31 \<and>
    getMonth now \<le> 11 \<longrightarrow>
      formattedDate now =
        [digit_char (getDate now div 10), digit_char (getDate now mod 10), CHR ''-'',
         digit_char ((getMonth now + 1) div 10), digit_char ((getMonth now + 1) mod 10),
         CHR ''-'',
         digit_char (getFullYear now div 10 mod 10), digit_char (getFullYear now mod 10)]"
  proof
    assume "1000 \<le> getFullYear now \<and> getFullYear now \<le> 9999 \<and> getDate now \<le> 31 \<and>
      getMonth now \<le> 11"
    then have "1000 \<le> getFullYear now" "getFullYear now \<le> 9999" "getDate now \<le> 31"
      "getMonth now \<le> 11"
      by simp_all
    then show "formattedDate now =
        [digit_char (getDate now div 10), digit_char (getDate now mod 10), CHR ''-'',
         digit_char ((getMonth now + 1) div 10), digit_char ((getMonth now + 1) mod 10),
         CHR ''-'',
         digit_char (getFullYear now div 10 mod 10), digit_char (getFullYear now mod 10)]"
      by (rule formattedDate_DD_MM_YY)
  qed
  show "dst = None \<or> dst = Some [] \<or> dst = Some st \<longrightarrow>
      formatLotStatus st dst = (if st = [] then ''N/A'' else st)"
    using formatLotStatus_cases [of dst st] by (rule conjunct1)
  show "\<forall>d. dst = Some d \<and> d \<noteq> [] \<and> d \<noteq> st \<longrightarrow> formatLotStatus st dst = st @ '' - '' @ d"
    using formatLotStatus_cases [of dst st] by (rule conjunct2)
qed

theorem C8_receipt_witness:
  "(\<exists>ls. reportLines (day_S 16) S1_details (lot_S 50) (comp_S 50 (Some 500)) = Some ls \<and>
      printTransferReceipt (day_S 16) S1_details (lot_S 50) (comp_S 50 (Some 500))
        = Some (join_lines ls) \<and>
      ls ! 0 = ''Bin Transfer Report                    Date:16-02-26'' \<and>
      ls ! 9 = ''2600107-1       K0802-4B         WHKON1               975.000     500.000  P - C      '') \<and>
   formattedDate (day_S 16) = ''16-02-26'' \<and>
   formatLotStatus ''P'' (Some ''C'') = ''P - C'' \<and> formatLotStatus ''P'' None = ''P''"
proof -
  note c = C8_receipt [where lot = "lot_S 50" and td = S1_details and now = "day_S 16"
      and fv = "comp_S 50 (Some 500)" and x = 500 and dst = "Some ''C''" and st = "''P''"]
  note n = C8_receipt [where lot = "lot_S 50" and td = S1_details and now = "day_S 16"
      and fv = "comp_S 50 (Some 500)" and x = 500 and dst = None and st = "''P''"]
  have h: "\<bar>qtyOnHand (lot_S 50)\<bar> < 10 ^ 21 \<and> \<bar>td_transfer_qty S1_details\<bar> < 10 ^ 21"
    by (simp add: lot_S_def S1_details_def)
  have q: "toFixed3 (qtyOnHand (lot_S 50)) = Some ''975.000''"
    "toFixed3 (td_transfer_qty S1_details) = Some ''500.000''"
    by (simp_all add: lot_S_def S1_details_def toFixed3_S1)
  from c h obtain ls qoh qt where
    l: "reportLines (day_S 16) S1_details (lot_S 50) (comp_S 50 (Some 500)) = Some ls"
    and p: "printTransferReceipt (day_S 16) S1_details (lot_S 50) (comp_S 50 (Some 500))
        = Some (join_lines ls)"
    and qq: "toFixed3 (qtyOnHand (lot_S 50)) = Some qoh"
      "toFixed3 (td_transfer_qty S1_details) = Some qt"
    and l0: "ls ! 0 = ''Bin Transfer Report                    Date:'' @ formattedDate (day_S 16)"
    and l9: "ls ! 9 = padEnd (td_lot_no S1_details) 16 @ padEnd (td_bin_from S1_details) 17 @
        padEnd (td_bin_to S1_details) 16 @ padStart qoh 12 @ '' '' @ padStart qt 11 @ ''  '' @
        padEnd (formatLotStatus (lotStatus (lot_S 50)) (td_destination_lot_status S1_details)) 11"
    by blast
  from q qq have e: "qoh = ''975.000''" "qt = ''500.000''" by simp_all
  have y: "1000 \<le> getFullYear (day_S 16) \<and> getFullYear (day_S 16) \<le> 9999 \<and>
      getDate (day_S 16) \<le> 31 \<and> getMonth (day_S 16) \<le> 11"
    by (simp add: day_S_def)
  with c have d: "formattedDate (day_S 16) = ''16-02-26''"
    by (simp add: day_S_def digit_char_def)
  from c have s1: "formatLotStatus ''P'' (Some ''C'') = ''P - C''" by simp
  from n have s2: "formatLotStatus ''P'' None = ''P''" by simp
  from l0 d have l0': "ls ! 0 = ''Bin Transfer Report                    Date:16-02-26''"
    by simp
  have "ls ! 9 = ''2600107-1       K0802-4B         WHKON1               975.000     500.000  P - C      ''"
    unfolding l9 e
    by (simp add: S1_details_def lot_S_def s1 padEnd_def padStart_def padStart_with_def)
      (simp add: eval_nat_numeral)
  with l p l0' d s1 s2 show ?thesis by blast
qed

end
